theory Spec2Isabelle
  imports Main "HOL-Library.Word"
begin

section \<open>FreeRTOS performance tests: queue contention, critical-section speed, queue speed\<close>

text \<open>
  The code of each task is embedded as state-passing functions over the data it
  touches; the hardware cycle counter is an input (\<open>clk\<close>: the value the k-th read
  returns), and every call of a kernel primitive is appended to the trace of the task
  that makes it, in program order.  The single-task tests (crit\_speed.c,
  queue\_speed.c) are these functions.  In queue\_contention.c the main task and one
  producer per core run concurrently: a run of that test case is an interleaving of
  their steps, in which a blocking call (\<open>ulTaskNotifyTake\<close>, \<open>xSemaphoreTake\<close> with
  \<open>portMAX_DELAY\<close>) is a step only when it can return.
\<close>

subsection \<open>Build-time configuration\<close>

text \<open>
  The macros \<open>configNUMBER_OF_CORES\<close>, \<open>portTEST_NUM_SAMPLES\<close> and
  \<open>portTEST_NUM_ITEMS\<close> are parameters of the programs; \<open>idf_config\<close> holds the
  values the sources define (test\_config.h: 2 cores; queue\_contention.c: 128 samples,
  256 items; crit\_speed.c and queue\_speed.c: 128 samples).  The averages divide by
  the sample count, which C leaves undefined for 0: the theorems about averages take
  a positive count.
\<close>

record test_config =
  configNUMBER_OF_CORES :: nat
  portTEST_NUM_SAMPLES :: nat
  portTEST_NUM_ITEMS :: nat

definition idf_config :: test_config where
  "idf_config = \<lparr>configNUMBER_OF_CORES = 2, portTEST_NUM_SAMPLES = 128, portTEST_NUM_ITEMS = 256\<rparr>"

subsection \<open>Unity assertions\<close>

datatype BaseType_t = pdFALSE | pdTRUE

text \<open>
  What a failed assertion reports besides the file, line and test name, which are the
  same at every execution of one assertion: the expected and the actual value, and the
  message string given in the source.
\<close>

datatype failure =
    AssertEqualFailed BaseType_t BaseType_t string
  | AssertNotNullFailed string

text \<open>
  Modelled from the spec: Unity's \<open>TEST_ASSERT_EQUAL_MESSAGE\<close> and
  \<open>TEST_ASSERT_NOT_NULL_MESSAGE\<close> macros (components/unity) are not under src.  A
  failed check is fatal: the run aborts there, with the failure as its result.
\<close>

definition TEST_ASSERT_EQUAL_MESSAGE :: "BaseType_t \<Rightarrow> BaseType_t \<Rightarrow> string \<Rightarrow> failure + unit" where
  "TEST_ASSERT_EQUAL_MESSAGE expected actual msg =
     (if expected = actual then Inr () else Inl (AssertEqualFailed expected actual msg))"

definition TEST_ASSERT_NOT_NULL_MESSAGE :: "'a option \<Rightarrow> string \<Rightarrow> failure + 'a" where
  "TEST_ASSERT_NOT_NULL_MESSAGE pointer msg =
     (case pointer of None \<Rightarrow> Inl (AssertNotNullFailed msg) | Some x \<Rightarrow> Inr x)"

subsection \<open>Counted loops\<close>

text \<open>
  \<open>for (i = 0; i < n; i++) body\<close>, where the body can abort the run, is
  \<open>for_loop [0..<n] body\<close>: the first failure ends the loop.  A loop whose body cannot
  fail is \<open>fold body [0..<n]\<close>.
\<close>

primrec for_loop :: "nat list \<Rightarrow> (nat \<Rightarrow> 's \<Rightarrow> 'e + 's) \<Rightarrow> 's \<Rightarrow> 'e + 's" where
  "for_loop [] body s = Inr s"
| "for_loop (i # js) body s =
     (case body i s of Inl e \<Rightarrow> Inl e | Inr s' \<Rightarrow> for_loop js body s')"

subsection \<open>The kernel queue\<close>

text \<open>
  Modelled from the spec: the FreeRTOS queue (\<open>xQueueCreate\<close>, \<open>xQueueSend\<close>,
  \<open>xQueueReceive\<close>, \<open>xQueueReset\<close>; components/freertos, queue.c) is not under src.
  It is a bounded-capacity queue with non-blocking enqueue and dequeue and a reset that
  restores it to empty.  Every call in the sources passes a block time of 0, so a send
  to a full queue and a receive from an empty one return at once without success.
  A queue of capacity 0 is not created (the handle is NULL); memory exhaustion is not
  modelled.  The oldest message is the head of \<open>messages\<close>.
\<close>

record Queue_t =
  uxLength :: nat
  messages :: "int list"

definition xQueueCreate :: "nat \<Rightarrow> Queue_t option" where
  "xQueueCreate uxQueueLength =
     (if uxQueueLength = 0 then None
      else Some \<lparr>uxLength = uxQueueLength, messages = []\<rparr>)"

definition xQueueSend :: "Queue_t \<Rightarrow> int \<Rightarrow> BaseType_t \<times> Queue_t" where
  "xQueueSend q v =
     (if length (messages q) < uxLength q then (pdTRUE, q\<lparr>messages := messages q @ [v]\<rparr>)
      else (pdFALSE, q))"

definition xQueueReceive :: "Queue_t \<Rightarrow> BaseType_t \<times> int option \<times> Queue_t" where
  "xQueueReceive q =
     (case messages q of
        [] \<Rightarrow> (pdFALSE, None, q)
      | v # vs \<Rightarrow> (pdTRUE, Some v, q\<lparr>messages := vs\<rparr>))"

definition xQueueReset :: "Queue_t \<Rightarrow> Queue_t" where
  "xQueueReset q = q\<lparr>messages := []\<rparr>"

subsection \<open>queue\_contention.c\<close>

text \<open>
  The trace of a producer task, the trace of the main task, and the lines printed.
  \<open>QueueSend c v r\<close>: \<open>xQueueSend\<close> on \<open>xQueueHandles[c]\<close> of the value \<open>v\<close> returned
  \<open>r\<close>.  A printed line is its format string with the arguments passed.
\<close>

datatype 't producer_event =
    NotifyTake
  | GetTime 't
  | QueueSend nat int BaseType_t
  | QueueReset nat
  | SemaphoreGive
  | TaskSuspend

datatype main_event = TaskNotifyGive nat | SemaphoreTake

datatype 't printf_arg = ArgInt int | ArgUBase 't

datatype 't printf = Printf string "'t printf_arg list"

text \<open>
  The file's static arrays, one entry per core, with the instrumentation: per core the
  number of cycle-counter reads made and the trace of its producer; the trace of the
  main task; the output.  \<open>'t\<close> is \<open>UBaseType_t\<close>, an unsigned machine word whose
  width the port defines: the functions below take it as \<open>'w word\<close>.  A task handle
  is the index of the core the task is pinned to.
\<close>

record 't contention_state =
  xQueueHandles :: "Queue_t list"
  xProducerTaskHandles :: "nat list"
  uxElapsedCumulative :: "'t list"
  ccount_reads :: "nat list"
  producer_trace :: "'t producer_event list list"
  main_trace :: "main_event list"
  stdout :: "'t printf list"

definition log_producer :: "nat \<Rightarrow> 't producer_event \<Rightarrow> 't contention_state \<Rightarrow> 't contention_state" where
  "log_producer core e st =
     st\<lparr>producer_trace := (producer_trace st)[core := producer_trace st ! core @ [e]]\<rparr>"

text \<open>\<open>portTEST_GET_TIME()\<close> on core \<open>core\<close>: the next reading of that core's counter.\<close>

definition portTEST_GET_TIME ::
  "(nat \<Rightarrow> nat \<Rightarrow> 'w::len word) \<Rightarrow> nat \<Rightarrow> 'w word contention_state \<Rightarrow> 'w word \<times> 'w word contention_state" where
  "portTEST_GET_TIME clk core st =
     (let t = clk core (ccount_reads st ! core)
      in (t, log_producer core (GetTime t)
               (st\<lparr>ccount_reads := (ccount_reads st)[core := Suc (ccount_reads st ! core)]\<rparr>)))"

text \<open>The body of the inner loop of \<open>prvProducerTask\<close> (lines 119-120).\<close>

definition producer_send :: "nat \<Rightarrow> nat \<Rightarrow> 't contention_state \<Rightarrow> failure + 't contention_state" where
  "producer_send core iItems st =
     (let Temp = int iItems;
          r = xQueueSend (xQueueHandles st ! core) Temp;
          st' = log_producer core (QueueSend core Temp (fst r))
                  (st\<lparr>xQueueHandles := (xQueueHandles st)[core := snd r]\<rparr>)
      in case TEST_ASSERT_EQUAL_MESSAGE pdTRUE (fst r) ''xQueueSend() failed'' of
           Inl e \<Rightarrow> Inl e
         | Inr _ \<Rightarrow> Inr st')"

text \<open>The body of the outer loop of \<open>prvProducerTask\<close> (lines 112-130).\<close>

definition producer_iteration ::
  "test_config \<Rightarrow> (nat \<Rightarrow> nat \<Rightarrow> 'w::len word) \<Rightarrow> nat \<Rightarrow> nat \<Rightarrow> 'w word contention_state
     \<Rightarrow> failure + 'w word contention_state" where
  "producer_iteration cfg clk core iSamples st =
     (let st1 = log_producer core NotifyTake st;
          r1 = portTEST_GET_TIME clk core st1;
          uxTempTime = fst r1
      in case for_loop [0..<portTEST_NUM_ITEMS cfg] (producer_send core) (snd r1) of
           Inl e \<Rightarrow> Inl e
         | Inr st3 \<Rightarrow>
             (let r2 = portTEST_GET_TIME clk core st3;
                  st4 = snd r2;
                  st5 = st4\<lparr>uxElapsedCumulative := (uxElapsedCumulative st4)
                          [core := uxElapsedCumulative st4 ! core + (fst r2 - uxTempTime)]\<rparr>;
                  st6 = log_producer core (QueueReset core)
                          (st5\<lparr>xQueueHandles := (xQueueHandles st5)
                             [core := xQueueReset (xQueueHandles st5 ! core)]\<rparr>)
              in Inr (log_producer core SemaphoreGive st6)))"

definition prvProducerTask ::
  "test_config \<Rightarrow> (nat \<Rightarrow> nat \<Rightarrow> 'w::len word) \<Rightarrow> nat \<Rightarrow> 'w word contention_state
     \<Rightarrow> failure + 'w word contention_state" where
  "prvProducerTask cfg clk core st =
     (case for_loop [0..<portTEST_NUM_SAMPLES cfg] (producer_iteration cfg clk core) st of
        Inl e \<Rightarrow> Inl e
      | Inr st' \<Rightarrow> Inr (log_producer core TaskSuspend st'))"

text \<open>The main task: \<open>xCoreID\<close> is what \<open>portGET_CORE_ID()\<close> returns there.\<close>

definition xTaskNotifyGive :: "nat \<Rightarrow> 't contention_state \<Rightarrow> 't contention_state" where
  "xTaskNotifyGive xTaskToNotify st = st\<lparr>main_trace := main_trace st @ [TaskNotifyGive xTaskToNotify]\<rparr>"

definition xSemaphoreTake :: "'t contention_state \<Rightarrow> 't contention_state" where
  "xSemaphoreTake st = st\<lparr>main_trace := main_trace st @ [SemaphoreTake]\<rparr>"

definition printf :: "string \<Rightarrow> 't printf_arg list \<Rightarrow> 't contention_state \<Rightarrow> 't contention_state" where
  "printf fmt args st = st\<lparr>stdout := stdout st @ [Printf fmt args]\<rparr>"

text \<open>One pass of the loop of lines 144-159.\<close>

definition contention_round :: "test_config \<Rightarrow> nat \<Rightarrow> nat \<Rightarrow> 't contention_state \<Rightarrow> 't contention_state" where
  "contention_round cfg xCoreID iIter st =
     (let st1 = fold (\<lambda>iCore s. if iCore \<noteq> xCoreID
                                 then xTaskNotifyGive (xProducerTaskHandles s ! iCore) s
                                 else s)
                  [0..<configNUMBER_OF_CORES cfg] st;
          st2 = xTaskNotifyGive (xProducerTaskHandles st1 ! xCoreID) st1
      in fold (\<lambda>iCore s. xSemaphoreTake s) [0..<configNUMBER_OF_CORES cfg] st2)"

definition Test_QueueContention :: "test_config \<Rightarrow> nat \<Rightarrow> 'w::len word contention_state \<Rightarrow> 'w word contention_state" where
  "Test_QueueContention cfg xCoreID st =
     (let st1 = fold (contention_round cfg xCoreID) [0..<portTEST_NUM_SAMPLES cfg] st;
          st2 = printf ''Time taken to fill %d items, averaged over %d samples\<newline>''
                  [ArgInt (int (portTEST_NUM_ITEMS cfg)), ArgInt (int (portTEST_NUM_SAMPLES cfg))] st1
      in fold (\<lambda>iCore s. printf ''Core %d: %d\<newline>''
                 [ArgInt (int iCore),
                  ArgUBase (uxElapsedCumulative s ! iCore div of_nat (portTEST_NUM_SAMPLES cfg))] s)
           [0..<configNUMBER_OF_CORES cfg] st2)"

text \<open>
  Modelled from the spec: the kernel's \<open>xSemaphoreCreateCounting\<close> and
  \<open>xTaskCreatePinnedToCore\<close> (components/freertos) are not under src.  They create
  the counting signal and a worker bound to one core.  A semaphore is its maximum and
  its initial count, and none is created for a maximum of 0 or an initial count above
  the maximum; a task handle is the index of the core.  Memory exhaustion is not
  modelled, so creating a task succeeds.
\<close>

definition xSemaphoreCreateCounting :: "nat \<Rightarrow> nat \<Rightarrow> (nat \<times> nat) option" where
  "xSemaphoreCreateCounting uxMaxCount uxInitialCount =
     (if uxMaxCount = 0 \<or> uxMaxCount < uxInitialCount then None
      else Some (uxMaxCount, uxInitialCount))"

definition xTaskCreatePinnedToCore :: "nat \<Rightarrow> BaseType_t \<times> nat" where
  "xTaskCreatePinnedToCore xCoreID = (pdTRUE, xCoreID)"

text \<open>
  \<open>setup_idf\<close>: the accumulators are zeroed, the semaphore is created, then one queue
  of \<open>portTEST_NUM_ITEMS\<close> slots and one pinned producer per core, in index order
  (\<open>setup_create\<close> is the body of that loop, lines 189-222).
\<close>

definition setup_create :: "test_config \<Rightarrow> nat \<Rightarrow> 't contention_state \<Rightarrow> failure + 't contention_state" where
  "setup_create cfg i st =
     (case TEST_ASSERT_NOT_NULL_MESSAGE (xQueueCreate (portTEST_NUM_ITEMS cfg)) ''Queue creation failed'' of
        Inl e \<Rightarrow> Inl e
      | Inr q \<Rightarrow>
          (let r = xTaskCreatePinnedToCore i
           in case TEST_ASSERT_EQUAL_MESSAGE pdTRUE (fst r) ''Creating producer task failed'' of
                Inl e \<Rightarrow> Inl e
              | Inr _ \<Rightarrow> Inr (st\<lparr>xQueueHandles := xQueueHandles st @ [q],
                                 xProducerTaskHandles := xProducerTaskHandles st @ [snd r]\<rparr>)))"

definition setup_idf :: "test_config \<Rightarrow> failure + 'w::len word contention_state" where
  "setup_idf cfg =
     (let st = \<lparr>xQueueHandles = [], xProducerTaskHandles = [],
                uxElapsedCumulative = replicate (configNUMBER_OF_CORES cfg) 0,
                ccount_reads = replicate (configNUMBER_OF_CORES cfg) 0,
                producer_trace = replicate (configNUMBER_OF_CORES cfg) [],
                main_trace = [], stdout = []\<rparr>
      in case TEST_ASSERT_NOT_NULL_MESSAGE
                (xSemaphoreCreateCounting (configNUMBER_OF_CORES cfg) 0)
                ''Failed to create counting semaphore'' of
           Inl e \<Rightarrow> Inl e
         | Inr _ \<Rightarrow> for_loop [0..<configNUMBER_OF_CORES cfg] (setup_create cfg) st)"

text \<open>
  The stretch of one round of \<open>prvProducerTask\<close> between its two synchronisation
  calls (lines 116-127): the two readings around the sends, the accumulation and the
  reset.  \<open>producer_iteration\<close> is \<open>ulTaskNotifyTake\<close>, this stretch, then
  \<open>xSemaphoreGive\<close> (lemma \<open>producer_iteration_parts\<close>).
\<close>

definition producer_work ::
  "test_config \<Rightarrow> (nat \<Rightarrow> nat \<Rightarrow> 'w::len word) \<Rightarrow> nat \<Rightarrow> 'w word contention_state
     \<Rightarrow> failure + 'w word contention_state" where
  "producer_work cfg clk core st =
     (let r1 = portTEST_GET_TIME clk core st;
          uxTempTime = fst r1
      in case for_loop [0..<portTEST_NUM_ITEMS cfg] (producer_send core) (snd r1) of
           Inl e \<Rightarrow> Inl e
         | Inr st3 \<Rightarrow>
             (let r2 = portTEST_GET_TIME clk core st3;
                  st4 = snd r2;
                  st5 = st4\<lparr>uxElapsedCumulative := (uxElapsedCumulative st4)
                          [core := uxElapsedCumulative st4 ! core + (fst r2 - uxTempTime)]\<rparr>
              in Inr (log_producer core (QueueReset core)
                        (st5\<lparr>xQueueHandles := (xQueueHandles st5)
                           [core := xQueueReset (xQueueHandles st5 ! core)]\<rparr>))))"

text \<open>
  The printing at the end of \<open>Test_QueueContention\<close> (lines 162-165), and the calls
  its loop (lines 144-159) makes, in order: the trace the loop leaves when it starts
  with an empty one.  \<open>Test_QueueContention\<close> is the loop followed by the printing
  (lemma \<open>Test_QueueContention_parts\<close>).
\<close>

definition print_results :: "test_config \<Rightarrow> 'w::len word contention_state \<Rightarrow> 'w word contention_state" where
  "print_results cfg st =
     (let st2 = printf ''Time taken to fill %d items, averaged over %d samples\<newline>''
                  [ArgInt (int (portTEST_NUM_ITEMS cfg)), ArgInt (int (portTEST_NUM_SAMPLES cfg))] st
      in fold (\<lambda>iCore s. printf ''Core %d: %d\<newline>''
                 [ArgInt (int iCore),
                  ArgUBase (uxElapsedCumulative s ! iCore div of_nat (portTEST_NUM_SAMPLES cfg))] s)
           [0..<configNUMBER_OF_CORES cfg] st2)"

definition main_calls_of :: "test_config \<Rightarrow> nat \<Rightarrow> 't contention_state \<Rightarrow> main_event list" where
  "main_calls_of cfg xCoreID st =
     main_trace (fold (contention_round cfg xCoreID) [0..<portTEST_NUM_SAMPLES cfg] (st\<lparr>main_trace := []\<rparr>))"

subsection \<open>The tasks of queue\_contention.c running together\<close>

text \<open>
  Modelled from the spec: the scheduler, the task notifications and the counting
  semaphore of the kernel (components/freertos) are not under src.  After \<open>setup_idf\<close>
  the main task and the producers, one per core, run concurrently.  A release
  (\<open>xTaskNotifyGive\<close>) raises the notification value of the worker;
  \<open>ulTaskNotifyTake(pdTRUE, portMAX_DELAY)\<close> returns once the value is not 0 and
  clears it, so a release is consumed once; \<open>xSemaphoreGive\<close> raises the count of
  \<open>xIterDoneSem\<close> unless it is at its maximum, \<open>configNUMBER_OF_CORES\<close>;
  \<open>xSemaphoreTake(xIterDoneSem, portMAX_DELAY)\<close> returns once the count is not 0 and
  lowers it.  A task whose next call cannot return has no step.

  The state of a run: the data of the file (\<open>shared\<close>), the notification value of
  every producer, the count of the semaphore, and where each task stands.  A
  producer is about to evaluate the loop condition and call \<open>ulTaskNotifyTake\<close>
  or, the loop over, \<open>vTaskSuspend\<close> (\<open>AtNotifyTake\<close>, lines 111-113 and 134); about
  to run the timed stretch of lines 116-127 (\<open>AtWork\<close>); about to call
  \<open>xSemaphoreGive\<close> and increment \<open>iSamples\<close> (\<open>AtGive\<close>, line 130); or suspended.
  Between the return of \<open>ulTaskNotifyTake\<close> and \<open>xSemaphoreGive\<close> a producer makes
  no blocking call and touches the entries of its own core only, so that stretch is
  one step; the stretches of different cores commute (lemma \<open>producer_work_commute\<close>).
  The main task has made \<open>main_calls\<close> of the calls of its loop, and has printed and
  returned or not.  A failed assertion aborts the run: no task makes a further step.
  \<open>teardown_idf\<close> deletes the tasks and queues and prints nothing; it is not part of
  the model, and nothing makes it wait for a producer to reach \<open>vTaskSuspend\<close>.
\<close>

datatype actor = MainTask | ProducerTask nat

datatype producer_pc = AtNotifyTake | AtWork | AtGive | Suspended

record 't system =
  shared :: "'t contention_state"
  ulNotifiedValue :: "nat \<Rightarrow> nat"
  uxSemaphoreCount :: nat
  iSamples_of :: "nat \<Rightarrow> nat"
  producer_at :: "nat \<Rightarrow> producer_pc"
  main_calls :: nat
  main_returned :: bool
  aborted :: "failure option"

text \<open>The next step of the producer of core \<open>w\<close>.\<close>

definition producer_step ::
  "test_config \<Rightarrow> (nat \<Rightarrow> nat \<Rightarrow> 'w::len word) \<Rightarrow> nat \<Rightarrow> 'w word system \<Rightarrow> 'w word system option" where
  "producer_step cfg clk w s =
     (case producer_at s w of
        AtNotifyTake \<Rightarrow>
          if iSamples_of s w < portTEST_NUM_SAMPLES cfg then
            (if ulNotifiedValue s w = 0 then None
             else Some (s\<lparr>shared := log_producer w NotifyTake (shared s),
                          ulNotifiedValue := (ulNotifiedValue s)(w := 0),
                          producer_at := (producer_at s)(w := AtWork)\<rparr>))
          else Some (s\<lparr>shared := log_producer w TaskSuspend (shared s),
                       producer_at := (producer_at s)(w := Suspended)\<rparr>)
      | AtWork \<Rightarrow>
          (case producer_work cfg clk w (shared s) of
             Inl e \<Rightarrow> Some (s\<lparr>aborted := Some e\<rparr>)
           | Inr st' \<Rightarrow> Some (s\<lparr>shared := st', producer_at := (producer_at s)(w := AtGive)\<rparr>))
      | AtGive \<Rightarrow>
          Some (s\<lparr>shared := log_producer w SemaphoreGive (shared s),
                  uxSemaphoreCount :=
                    (if uxSemaphoreCount s < configNUMBER_OF_CORES cfg
                     then Suc (uxSemaphoreCount s) else uxSemaphoreCount s),
                  iSamples_of := (iSamples_of s)(w := Suc (iSamples_of s w)),
                  producer_at := (producer_at s)(w := AtNotifyTake)\<rparr>)
      | Suspended \<Rightarrow> None)"

text \<open>
  The next step of the main task, running on core \<open>xCoreID\<close>: the next call of its
  loop, or, the loop over, the printing.  A task handle is the index of the core, so
  \<open>xTaskNotifyGive h\<close> raises the notification value of the producer of core \<open>h\<close>.
\<close>

definition main_step :: "test_config \<Rightarrow> nat \<Rightarrow> 'w::len word system \<Rightarrow> 'w word system option" where
  "main_step cfg xCoreID s =
     (if main_returned s then None
      else if main_calls s < length (main_calls_of cfg xCoreID (shared s)) then
        (case main_calls_of cfg xCoreID (shared s) ! main_calls s of
           TaskNotifyGive h \<Rightarrow>
             Some (s\<lparr>shared := xTaskNotifyGive h (shared s),
                     ulNotifiedValue := (ulNotifiedValue s)(h := Suc (ulNotifiedValue s h)),
                     main_calls := Suc (main_calls s)\<rparr>)
         | SemaphoreTake \<Rightarrow>
             if uxSemaphoreCount s = 0 then None
             else Some (s\<lparr>shared := xSemaphoreTake (shared s),
                          uxSemaphoreCount := uxSemaphoreCount s - 1,
                          main_calls := Suc (main_calls s)\<rparr>))
      else Some (s\<lparr>shared := print_results cfg (shared s), main_returned := True\<rparr>))"

definition system_step ::
  "test_config \<Rightarrow> (nat \<Rightarrow> nat \<Rightarrow> 'w::len word) \<Rightarrow> nat \<Rightarrow> actor \<Rightarrow> 'w word system \<Rightarrow> 'w word system option" where
  "system_step cfg clk xCoreID a s =
     (case aborted s of
        Some e \<Rightarrow> None
      | None \<Rightarrow>
          (case a of
             MainTask \<Rightarrow> main_step cfg xCoreID s
           | ProducerTask w \<Rightarrow>
               if w < configNUMBER_OF_CORES cfg then producer_step cfg clk w s else None))"

text \<open>
  A schedule lists which task makes its next step; it is a run when every step it
  asks for is enabled (\<open>Some\<close>).
\<close>

primrec run_system ::
  "test_config \<Rightarrow> (nat \<Rightarrow> nat \<Rightarrow> 'w::len word) \<Rightarrow> nat \<Rightarrow> actor list \<Rightarrow> 'w word system \<Rightarrow> 'w word system option" where
  "run_system cfg clk xCoreID [] s = Some s"
| "run_system cfg clk xCoreID (a # as) s =
     (case system_step cfg clk xCoreID a s of
        None \<Rightarrow> None
      | Some s' \<Rightarrow> run_system cfg clk xCoreID as s')"

text \<open>
  The tasks as created: the semaphore at its initial count 0
  (\<open>xSemaphoreCreateCounting(configNUMBER_OF_CORES, 0)\<close>), no notification pending,
  every producer at the head of its loop with \<open>iSamples = 0\<close>.
\<close>

definition system_start :: "'t contention_state \<Rightarrow> 't system" where
  "system_start st0 =
     \<lparr>shared = st0, ulNotifiedValue = (\<lambda>w. 0), uxSemaphoreCount = 0, iSamples_of = (\<lambda>w. 0),
      producer_at = (\<lambda>w. AtNotifyTake), main_calls = 0, main_returned = False, aborted = None\<rparr>"

text \<open>The test case under the schedule \<open>sched\<close>: \<open>setup_idf\<close>, then the tasks.\<close>

definition TEST_CASE_QueueContention ::
  "test_config \<Rightarrow> (nat \<Rightarrow> nat \<Rightarrow> 'w::len word) \<Rightarrow> nat \<Rightarrow> actor list \<Rightarrow> failure + 'w word system option" where
  "TEST_CASE_QueueContention cfg clk xCoreID sched =
     (case setup_idf cfg of
        Inl e \<Rightarrow> Inl e
      | Inr st0 \<Rightarrow> Inr (run_system cfg clk xCoreID sched (system_start st0)))"

subsection \<open>crit\_speed.c\<close>

text \<open>
  One task, no queue.  \<open>EnterCritical\<close> and \<open>ExitCritical\<close> stand for
  \<open>taskENTER_CRITICAL()\<close>/\<open>portENTER_CRITICAL(&mux)\<close> and their exit counterparts,
  whichever the build selects.  The counter is \<open>clk\<close>, indexed by the number of reads.
\<close>

datatype 't crit_event = CritGetTime 't | EnterCritical | ExitCritical

record 't crit_state =
  uxEntryElapsedCumulative :: 't
  uxExitElapsedCumulative :: 't
  uxTemp :: 't
  crit_reads :: nat
  crit_trace :: "'t crit_event list"
  crit_stdout :: "'t printf list"

definition portTEST_GET_TIME_crit ::
  "(nat \<Rightarrow> 'w::len word) \<Rightarrow> 'w word crit_state \<Rightarrow> 'w word \<times> 'w word crit_state" where
  "portTEST_GET_TIME_crit clk st =
     (clk (crit_reads st),
      st\<lparr>crit_reads := Suc (crit_reads st),
         crit_trace := crit_trace st @ [CritGetTime (clk (crit_reads st))]\<rparr>)"

text \<open>The body of the loop of \<open>Test_CriticalSectionSpeed\<close> (lines 79-95).\<close>

definition crit_sample :: "(nat \<Rightarrow> 'w::len word) \<Rightarrow> nat \<Rightarrow> 'w word crit_state \<Rightarrow> 'w word crit_state" where
  "crit_sample clk i st =
     (let r1 = portTEST_GET_TIME_crit clk st;
          st1 = (snd r1)\<lparr>uxTemp := fst r1\<rparr>;
          st2 = st1\<lparr>crit_trace := crit_trace st1 @ [EnterCritical]\<rparr>;
          r2 = portTEST_GET_TIME_crit clk st2;
          st3 = (snd r2)\<lparr>uxEntryElapsedCumulative :=
                  uxEntryElapsedCumulative (snd r2) + (fst r2 - uxTemp (snd r2))\<rparr>;
          r3 = portTEST_GET_TIME_crit clk st3;
          st4 = (snd r3)\<lparr>uxTemp := fst r3\<rparr>;
          st5 = st4\<lparr>crit_trace := crit_trace st4 @ [ExitCritical]\<rparr>;
          r4 = portTEST_GET_TIME_crit clk st5
      in (snd r4)\<lparr>uxExitElapsedCumulative :=
            uxExitElapsedCumulative (snd r4) + (fst r4 - uxTemp (snd r4))\<rparr>)"

definition Test_CriticalSectionSpeed :: "test_config \<Rightarrow> (nat \<Rightarrow> 'w::len word) \<Rightarrow> 'w word crit_state" where
  "Test_CriticalSectionSpeed cfg clk =
     (let st0 = \<lparr>uxEntryElapsedCumulative = 0, uxExitElapsedCumulative = 0, uxTemp = 0,
                 crit_reads = 0, crit_trace = [], crit_stdout = []\<rparr>;
          st1 = fold (crit_sample clk) [0..<portTEST_NUM_SAMPLES cfg] st0;
          st2 = st1\<lparr>crit_stdout := crit_stdout st1
                  @ [Printf ''taskENTER_CRITICAL() average elapsed time: %u\<newline>''
                       [ArgUBase (uxEntryElapsedCumulative st1 div of_nat (portTEST_NUM_SAMPLES cfg))]]\<rparr>
      in st2\<lparr>crit_stdout := crit_stdout st2
                  @ [Printf ''taskEXIT_CRITICAL() average elapsed time: %u\<newline>''
                       [ArgUBase (uxExitElapsedCumulative st2 div of_nat (portTEST_NUM_SAMPLES cfg))]]\<rparr>)"

subsection \<open>queue\_speed.c\<close>

text \<open>
  One task and one queue of \<open>portTEST_NUM_SAMPLES\<close> slots.  \<open>QsReceive v r\<close>:
  \<open>xQueueReceive\<close> returned \<open>r\<close> and stored \<open>v\<close> into \<open>iValue\<close> (nothing when it fails).
\<close>

datatype 't qspeed_event = QsGetTime 't | QsSend int BaseType_t | QsReceive "int option" BaseType_t

record 't qspeed_state =
  xQueueHandle :: Queue_t
  uxSendElapsedCumulative :: 't
  uxRecvElapsedCumulative :: 't
  uxTemp_qs :: 't
  qs_reads :: nat
  qs_trace :: "'t qspeed_event list"
  qs_stdout :: "'t printf list"

definition portTEST_GET_TIME_qs ::
  "(nat \<Rightarrow> 'w::len word) \<Rightarrow> 'w word qspeed_state \<Rightarrow> 'w word \<times> 'w word qspeed_state" where
  "portTEST_GET_TIME_qs clk st =
     (clk (qs_reads st),
      st\<lparr>qs_reads := Suc (qs_reads st), qs_trace := qs_trace st @ [QsGetTime (clk (qs_reads st))]\<rparr>)"

text \<open>The bodies of the two loops of \<open>Test_QueueSpeedNonBlocking\<close> (lines 80-82, 86-89).\<close>

definition qspeed_send ::
  "(nat \<Rightarrow> 'w::len word) \<Rightarrow> nat \<Rightarrow> 'w word qspeed_state \<Rightarrow> failure + 'w word qspeed_state" where
  "qspeed_send clk i st =
     (let r1 = portTEST_GET_TIME_qs clk st;
          st1 = (snd r1)\<lparr>uxTemp_qs := fst r1\<rparr>;
          r = xQueueSend (xQueueHandle st1) (int i);
          st2 = st1\<lparr>xQueueHandle := snd r, qs_trace := qs_trace st1 @ [QsSend (int i) (fst r)]\<rparr>
      in case TEST_ASSERT_EQUAL_MESSAGE pdTRUE (fst r) ''xQueueSend() failed'' of
           Inl e \<Rightarrow> Inl e
         | Inr _ \<Rightarrow>
             (let r2 = portTEST_GET_TIME_qs clk st2
              in Inr ((snd r2)\<lparr>uxSendElapsedCumulative :=
                        uxSendElapsedCumulative (snd r2) + (fst r2 - uxTemp_qs (snd r2))\<rparr>)))"

definition qspeed_receive ::
  "(nat \<Rightarrow> 'w::len word) \<Rightarrow> nat \<Rightarrow> 'w word qspeed_state \<Rightarrow> failure + 'w word qspeed_state" where
  "qspeed_receive clk i st =
     (let r1 = portTEST_GET_TIME_qs clk st;
          st1 = (snd r1)\<lparr>uxTemp_qs := fst r1\<rparr>;
          r = xQueueReceive (xQueueHandle st1);
          iValue = fst (snd r);
          st2 = st1\<lparr>xQueueHandle := snd (snd r), qs_trace := qs_trace st1 @ [QsReceive iValue (fst r)]\<rparr>
      in case TEST_ASSERT_EQUAL_MESSAGE pdTRUE (fst r) ''xQueueReceive() failed'' of
           Inl e \<Rightarrow> Inl e
         | Inr _ \<Rightarrow>
             (let r2 = portTEST_GET_TIME_qs clk st2
              in Inr ((snd r2)\<lparr>uxRecvElapsedCumulative :=
                        uxRecvElapsedCumulative (snd r2) + (fst r2 - uxTemp_qs (snd r2))\<rparr>)))"

definition Test_QueueSpeedNonBlocking ::
  "test_config \<Rightarrow> (nat \<Rightarrow> 'w::len word) \<Rightarrow> Queue_t \<Rightarrow> failure + 'w word qspeed_state" where
  "Test_QueueSpeedNonBlocking cfg clk q =
     (let st0 = \<lparr>xQueueHandle = q, uxSendElapsedCumulative = 0, uxRecvElapsedCumulative = 0,
                 uxTemp_qs = 0, qs_reads = 0, qs_trace = [], qs_stdout = []\<rparr>
      in case for_loop [0..<portTEST_NUM_SAMPLES cfg] (qspeed_send clk) st0 of
           Inl e \<Rightarrow> Inl e
         | Inr st1 \<Rightarrow>
             (case for_loop [0..<portTEST_NUM_SAMPLES cfg] (qspeed_receive clk) st1 of
                Inl e \<Rightarrow> Inl e
              | Inr st2 \<Rightarrow>
                  (let st3 = st2\<lparr>qs_stdout := qs_stdout st2
                               @ [Printf ''xQueueSend() average elapsed time: %u\<newline>''
                                    [ArgUBase (uxSendElapsedCumulative st2
                                               div of_nat (portTEST_NUM_SAMPLES cfg))]]\<rparr>
                   in Inr (st3\<lparr>qs_stdout := qs_stdout st3
                               @ [Printf ''xQueueReceive() average elapsed time: %u\<newline>''
                                    [ArgUBase (uxRecvElapsedCumulative st3
                                               div of_nat (portTEST_NUM_SAMPLES cfg))]]\<rparr>))))"

definition setup_idf_queue_speed :: "test_config \<Rightarrow> failure + Queue_t" where
  "setup_idf_queue_speed cfg =
     TEST_ASSERT_NOT_NULL_MESSAGE (xQueueCreate (portTEST_NUM_SAMPLES cfg)) ''Queue creation failed''"

definition TEST_CASE_QueueSpeed ::
  "test_config \<Rightarrow> (nat \<Rightarrow> 'w::len word) \<Rightarrow> failure + 'w word qspeed_state" where
  "TEST_CASE_QueueSpeed cfg clk =
     (case setup_idf_queue_speed cfg of
        Inl e \<Rightarrow> Inl e
      | Inr q \<Rightarrow> Test_QueueSpeedNonBlocking cfg clk q)"

subsection \<open>What a run of the producers leaves behind\<close>

definition round_trace :: "test_config \<Rightarrow> nat \<Rightarrow> 't \<Rightarrow> 't \<Rightarrow> 't producer_event list" where
  "round_trace cfg core t0 t1 =
     [NotifyTake, GetTime t0]
     @ map (\<lambda>k. QueueSend core (int k) pdTRUE) [0..<portTEST_NUM_ITEMS cfg]
     @ [GetTime t1, QueueReset core, SemaphoreGive]"

definition arrays_ok :: "nat \<Rightarrow> 't contention_state \<Rightarrow> bool" where
  "arrays_ok core st =
     (core < length (xQueueHandles st) \<and> core < length (uxElapsedCumulative st)
      \<and> core < length (ccount_reads st) \<and> core < length (producer_trace st))"

definition rounds_trace :: "test_config \<Rightarrow> (nat \<Rightarrow> nat \<Rightarrow> 't) \<Rightarrow> nat \<Rightarrow> nat \<Rightarrow> nat \<Rightarrow> 't producer_event list" where
  "rounds_trace cfg clk core r k =
     concat (map (\<lambda>i. round_trace cfg core (clk core (r + 2 * i)) (clk core (r + 2 * i + 1))) [0..<k])"

definition after_rounds ::
  "test_config \<Rightarrow> (nat \<Rightarrow> nat \<Rightarrow> 'w::len word) \<Rightarrow> nat \<Rightarrow> nat \<Rightarrow> 'w word contention_state \<Rightarrow> 'w word contention_state" where
  "after_rounds cfg clk core k st =
     st\<lparr>xQueueHandles := (xQueueHandles st)
          [core := (xQueueHandles st ! core)
                     \<lparr>messages := (if k = 0 then messages (xQueueHandles st ! core) else [])\<rparr>],
        uxElapsedCumulative := (uxElapsedCumulative st)
          [core := uxElapsedCumulative st ! core
                   + (\<Sum>i<k. clk core (ccount_reads st ! core + 2 * i + 1)
                              - clk core (ccount_reads st ! core + 2 * i))],
        ccount_reads := (ccount_reads st)[core := ccount_reads st ! core + 2 * k],
        producer_trace := (producer_trace st)
          [core := producer_trace st ! core @ rounds_trace cfg clk core (ccount_reads st ! core) k]\<rparr>"

definition release_order :: "test_config \<Rightarrow> nat \<Rightarrow> nat list" where
  "release_order cfg xCoreID = filter (\<lambda>iCore. iCore \<noteq> xCoreID) [0..<configNUMBER_OF_CORES cfg] @ [xCoreID]"

definition round_events :: "test_config \<Rightarrow> nat \<Rightarrow> nat list \<Rightarrow> main_event list" where
  "round_events cfg xCoreID handles =
     map (\<lambda>iCore. TaskNotifyGive (handles ! iCore)) (release_order cfg xCoreID)
     @ replicate (configNUMBER_OF_CORES cfg) SemaphoreTake"

definition average_lines :: "test_config \<Rightarrow> 'w::len word list \<Rightarrow> nat list \<Rightarrow> 'w word printf list" where
  "average_lines cfg cumulative cores =
     map (\<lambda>iCore. Printf ''Core %d: %d\<newline>''
            [ArgInt (int iCore), ArgUBase (cumulative ! iCore div of_nat (portTEST_NUM_SAMPLES cfg))]) cores"

definition initial_state :: "test_config \<Rightarrow> 'w::len word contention_state" where
  "initial_state cfg =
     \<lparr>xQueueHandles = replicate (configNUMBER_OF_CORES cfg) \<lparr>uxLength = portTEST_NUM_ITEMS cfg, messages = []\<rparr>,
      xProducerTaskHandles = [0..<configNUMBER_OF_CORES cfg],
      uxElapsedCumulative = replicate (configNUMBER_OF_CORES cfg) 0,
      ccount_reads = replicate (configNUMBER_OF_CORES cfg) 0,
      producer_trace = replicate (configNUMBER_OF_CORES cfg) [],
      main_trace = [], stdout = []\<rparr>"

definition crit_sample_trace :: "(nat \<Rightarrow> 't) \<Rightarrow> nat \<Rightarrow> 't crit_event list" where
  "crit_sample_trace clk i =
     [CritGetTime (clk (4 * i)), EnterCritical, CritGetTime (clk (4 * i + 1)),
      CritGetTime (clk (4 * i + 2)), ExitCritical, CritGetTime (clk (4 * i + 3))]"

text \<open>The sum of \<open>n\<close> samples as a natural number, without wrap-around.\<close>

definition true_sum :: "nat \<Rightarrow> (nat \<Rightarrow> 'w::len word) \<Rightarrow> nat" where
  "true_sum n sample = (\<Sum>i<n. unat (sample i))"

subsection \<open>What holds in every state of a run of queue\_contention.c\<close>

text \<open>The calls of the loop of the main task, with the handles \<open>setup_idf\<close> leaves (lemma \<open>main_calls_of_eq\<close>).\<close>

definition main_program :: "test_config \<Rightarrow> nat \<Rightarrow> main_event list" where
  "main_program cfg xCoreID =
     concat (replicate (portTEST_NUM_SAMPLES cfg)
       (map TaskNotifyGive (release_order cfg xCoreID)
        @ replicate (configNUMBER_OF_CORES cfg) SemaphoreTake))"

definition in_round :: "'t system \<Rightarrow> nat \<Rightarrow> bool" where
  "in_round s w = (producer_at s w = AtWork \<or> producer_at s w = AtGive)"

text \<open>
  The barrier: with the main task in round \<open>R\<close>, \<open>z\<close> calls into it, a producer has
  finished \<open>R\<close> rounds, or \<open>R + 1\<close> if it was released in this round and has given the
  semaphore; a release is pending or being worked on only for a producer released in
  this round; the semaphore counts the producers that have finished this round, less
  the takes the main task has made in it.
\<close>

definition barrier_inv :: "test_config \<Rightarrow> nat \<Rightarrow> 't system \<Rightarrow> bool" where
  "barrier_inv cfg xCoreID s =
     (let N = configNUMBER_OF_CORES cfg;
          R = main_calls s div (2 * N);
          z = main_calls s mod (2 * N);
          rel = set (take z (release_order cfg xCoreID))
      in main_calls s \<le> portTEST_NUM_SAMPLES cfg * (2 * N)
       \<and> (\<forall>w<N.
             (iSamples_of s w = R
                \<and> (if w \<in> rel
                    then (ulNotifiedValue s w = 1 \<and> \<not> in_round s w)
                         \<or> (ulNotifiedValue s w = 0 \<and> in_round s w)
                    else ulNotifiedValue s w = 0 \<and> \<not> in_round s w))
           \<or> (iSamples_of s w = Suc R \<and> w \<in> rel \<and> ulNotifiedValue s w = 0 \<and> \<not> in_round s w))
       \<and> uxSemaphoreCount s + (z - N) = card {w. w < N \<and> iSamples_of s w = Suc R})"

text \<open>
  The tasks: the main task returns after the last call of its loop; a producer is
  suspended only after its last round; the main task has logged the calls made so
  far; nothing is printed before the main task is through, and a run that aborted
  has not printed.
\<close>

definition tasks_inv :: "test_config \<Rightarrow> nat \<Rightarrow> 't system \<Rightarrow> bool" where
  "tasks_inv cfg xCoreID s =
     ((main_returned s \<longrightarrow> main_calls s = portTEST_NUM_SAMPLES cfg * (2 * configNUMBER_OF_CORES cfg))
    \<and> (\<forall>w<configNUMBER_OF_CORES cfg.
          producer_at s w = Suspended \<longrightarrow> iSamples_of s w = portTEST_NUM_SAMPLES cfg)
    \<and> xProducerTaskHandles (shared s) = [0..<configNUMBER_OF_CORES cfg]
    \<and> main_trace (shared s) = take (main_calls s) (main_program cfg xCoreID)
    \<and> (aborted s \<noteq> None \<longrightarrow> \<not> main_returned s)
    \<and> (\<not> main_returned s \<longrightarrow> stdout (shared s) = []))"

text \<open>
  The data of core \<open>w\<close> when its producer has finished \<open>k\<close> rounds and stands at
  \<open>pc\<close>: the queue is empty, the accumulator holds the samples of the rounds timed so
  far, and the trace is that of \<open>k\<close> whole rounds followed by the part of the current
  one that lies before \<open>pc\<close>.
\<close>

definition rounds_timed :: "nat \<Rightarrow> producer_pc \<Rightarrow> nat" where
  "rounds_timed k pc = (if pc = AtGive then Suc k else k)"

definition round_prefix ::
  "test_config \<Rightarrow> (nat \<Rightarrow> nat \<Rightarrow> 't) \<Rightarrow> nat \<Rightarrow> nat \<Rightarrow> producer_pc \<Rightarrow> 't producer_event list" where
  "round_prefix cfg clk w k pc =
     (case pc of
        AtNotifyTake \<Rightarrow> []
      | AtWork \<Rightarrow> [NotifyTake]
      | AtGive \<Rightarrow> [NotifyTake, GetTime (clk w (2 * k))]
                  @ map (\<lambda>i. QueueSend w (int i) pdTRUE) [0..<portTEST_NUM_ITEMS cfg]
                  @ [GetTime (clk w (2 * k + 1)), QueueReset w]
      | Suspended \<Rightarrow> [TaskSuspend])"

definition producer_data ::
  "test_config \<Rightarrow> (nat \<Rightarrow> nat \<Rightarrow> 'w::len word) \<Rightarrow> nat \<Rightarrow> nat \<Rightarrow> producer_pc \<Rightarrow> 'w word contention_state \<Rightarrow> bool" where
  "producer_data cfg clk w k pc st =
     (arrays_ok w st
    \<and> xQueueHandles st ! w = \<lparr>uxLength = portTEST_NUM_ITEMS cfg, messages = []\<rparr>
    \<and> uxElapsedCumulative st ! w = (\<Sum>i<rounds_timed k pc. clk w (2 * i + 1) - clk w (2 * i))
    \<and> ccount_reads st ! w = 2 * rounds_timed k pc
    \<and> producer_trace st ! w = rounds_trace cfg clk w 0 k @ round_prefix cfg clk w k pc)"

definition expected_output :: "test_config \<Rightarrow> (nat \<Rightarrow> nat \<Rightarrow> 'w::len word) \<Rightarrow> 'w word printf list" where
  "expected_output cfg clk =
     Printf ''Time taken to fill %d items, averaged over %d samples\<newline>''
       [ArgInt (int (portTEST_NUM_ITEMS cfg)), ArgInt (int (portTEST_NUM_SAMPLES cfg))]
     # map (\<lambda>iCore. Printf ''Core %d: %d\<newline>''
              [ArgInt (int iCore),
               ArgUBase ((\<Sum>i<portTEST_NUM_SAMPLES cfg. clk iCore (2 * i + 1) - clk iCore (2 * i))
                         div of_nat (portTEST_NUM_SAMPLES cfg))])
         [0..<configNUMBER_OF_CORES cfg]"

definition data_inv :: "test_config \<Rightarrow> (nat \<Rightarrow> nat \<Rightarrow> 'w::len word) \<Rightarrow> 'w word system \<Rightarrow> bool" where
  "data_inv cfg clk s =
     (aborted s = None
    \<and> (\<forall>w<configNUMBER_OF_CORES cfg.
          producer_data cfg clk w (iSamples_of s w) (producer_at s w) (shared s))
    \<and> (main_returned s \<longrightarrow> stdout (shared s) = expected_output cfg clk))"

text \<open>The number of steps the tasks have made.\<close>

definition producer_steps :: "'t system \<Rightarrow> nat \<Rightarrow> nat" where
  "producer_steps s w =
     3 * iSamples_of s w
     + (case producer_at s w of AtNotifyTake \<Rightarrow> 0 | AtWork \<Rightarrow> 1 | AtGive \<Rightarrow> 2 | Suspended \<Rightarrow> 1)"

definition steps_done :: "test_config \<Rightarrow> 't system \<Rightarrow> nat" where
  "steps_done cfg s =
     main_calls s + (if main_returned s then 1 else 0)
     + (\<Sum>w<configNUMBER_OF_CORES cfg. producer_steps s w)"

section \<open>Properties\<close>

subsection \<open>Loops and the producer task\<close>

lemma for_loop_append:
  "for_loop (xs @ ys) body s = (case for_loop xs body s of Inl e \<Rightarrow> Inl e | Inr s' \<Rightarrow> for_loop ys body s')"
  by (induction xs arbitrary: s) (auto split: sum.splits)

lemma producer_sends_ok:
  assumes "core < length (xQueueHandles st)" "core < length (producer_trace st)"
    "length (messages (xQueueHandles st ! core)) + length ks \<le> uxLength (xQueueHandles st ! core)"
  shows "for_loop ks (producer_send core) st =
     Inr (st\<lparr>xQueueHandles := (xQueueHandles st)
                [core := (xQueueHandles st ! core)\<lparr>messages := messages (xQueueHandles st ! core) @ map int ks\<rparr>],
             producer_trace := (producer_trace st)
                [core := producer_trace st ! core @ map (\<lambda>k. QueueSend core (int k) pdTRUE) ks]\<rparr>)"
  using assms
proof (induction ks arbitrary: st)
  case Nil
  then show ?case by simp
next
  case (Cons k ks)
  let ?q = "xQueueHandles st ! core"
  have room: "length (messages ?q) < uxLength ?q" using Cons.prems by simp
  define st' where "st' = log_producer core (QueueSend core (int k) pdTRUE)
       (st\<lparr>xQueueHandles := (xQueueHandles st)[core := ?q\<lparr>messages := messages ?q @ [int k]\<rparr>]\<rparr>)"
  have step: "producer_send core k st = Inr st'"
    using room by (simp add: producer_send_def xQueueSend_def TEST_ASSERT_EQUAL_MESSAGE_def st'_def Let_def)
  have q': "xQueueHandles st' ! core = ?q\<lparr>messages := messages ?q @ [int k]\<rparr>"
    using Cons.prems by (simp add: st'_def log_producer_def)
  have l: "core < length (xQueueHandles st')" "core < length (producer_trace st')"
    using Cons.prems by (simp_all add: st'_def log_producer_def)
  have r: "length (messages (xQueueHandles st' ! core)) + length ks \<le> uxLength (xQueueHandles st' ! core)"
    using Cons.prems by (simp add: q')
  show ?case
    using Cons.prems
    by (simp add: step Cons.IH[OF l r] q') (simp add: st'_def log_producer_def)
qed

lemma producer_iteration_ok:
  fixes st :: "'w::len word contention_state"
  assumes ok: "arrays_ok core st"
    and room: "length (messages (xQueueHandles st ! core)) + portTEST_NUM_ITEMS cfg
                 \<le> uxLength (xQueueHandles st ! core)"
  shows "producer_iteration cfg clk core i st =
     Inr (st\<lparr>xQueueHandles := (xQueueHandles st)[core := (xQueueHandles st ! core)\<lparr>messages := []\<rparr>],
             uxElapsedCumulative := (uxElapsedCumulative st)
               [core := uxElapsedCumulative st ! core
                        + (clk core (Suc (ccount_reads st ! core)) - clk core (ccount_reads st ! core))],
             ccount_reads := (ccount_reads st)[core := ccount_reads st ! core + 2],
             producer_trace := (producer_trace st)
               [core := producer_trace st ! core
                        @ round_trace cfg core (clk core (ccount_reads st ! core))
                            (clk core (Suc (ccount_reads st ! core)))]\<rparr>)"
proof -
  let ?r = "ccount_reads st ! core"
  define st2 where "st2 = snd (portTEST_GET_TIME clk core (log_producer core NotifyTake st))"
  have st2: "st2 = st\<lparr>ccount_reads := (ccount_reads st)[core := Suc ?r],
                      producer_trace := (producer_trace st)
                        [core := producer_trace st ! core @ [NotifyTake, GetTime (clk core ?r)]]\<rparr>"
    using ok by (simp add: st2_def portTEST_GET_TIME_def log_producer_def Let_def arrays_ok_def)
  have t0: "fst (portTEST_GET_TIME clk core (log_producer core NotifyTake st)) = clk core ?r"
    by (simp add: portTEST_GET_TIME_def log_producer_def Let_def)
  have a: "core < length (xQueueHandles st2)" "core < length (producer_trace st2)"
    using ok by (simp_all add: st2 arrays_ok_def)
  have b: "length (messages (xQueueHandles st2 ! core)) + length [0..<portTEST_NUM_ITEMS cfg]
             \<le> uxLength (xQueueHandles st2 ! core)"
    using room by (simp add: st2)
  note sends = producer_sends_ok[OF a b]
  show ?thesis
    unfolding producer_iteration_def Let_def st2_def[symmetric] t0
    apply (simp only: sends sum.case)
    using ok
    apply (simp add: st2 portTEST_GET_TIME_def log_producer_def Let_def arrays_ok_def
        xQueueReset_def round_trace_def)
    done
qed

lemma producer_rounds_ok:
  fixes st :: "'w::len word contention_state"
  assumes ok: "arrays_ok core st"
    and room: "length (messages (xQueueHandles st ! core)) + portTEST_NUM_ITEMS cfg
                 \<le> uxLength (xQueueHandles st ! core)"
  shows "for_loop [0..<k] (producer_iteration cfg clk core) st = Inr (after_rounds cfg clk core k st)"
proof (induction k)
  case 0
  show ?case using ok by (simp add: after_rounds_def rounds_trace_def arrays_ok_def)
next
  case (Suc k)
  let ?s = "after_rounds cfg clk core k st"
  have ok': "arrays_ok core ?s"
    using ok by (simp add: after_rounds_def arrays_ok_def)
  have room': "length (messages (xQueueHandles ?s ! core)) + portTEST_NUM_ITEMS cfg
                 \<le> uxLength (xQueueHandles ?s ! core)"
    using ok room by (simp add: after_rounds_def arrays_ok_def)
  have step: "producer_iteration cfg clk core k ?s = Inr (after_rounds cfg clk core (Suc k) st)"
    unfolding producer_iteration_ok[OF ok' room']
    using ok by (simp add: after_rounds_def arrays_ok_def rounds_trace_def add.assoc)
  show ?case
    by (simp add: for_loop_append Suc.IH step)
qed

lemma notify_others_fold:
  "fold (\<lambda>iCore s. if iCore \<noteq> c then xTaskNotifyGive (xProducerTaskHandles s ! iCore) s else s) xs st =
     st\<lparr>main_trace := main_trace st
           @ map (\<lambda>iCore. TaskNotifyGive (xProducerTaskHandles st ! iCore)) (filter (\<lambda>iCore. iCore \<noteq> c) xs)\<rparr>"
  by (induction xs arbitrary: st) (simp_all add: xTaskNotifyGive_def)

lemma semaphore_take_fold:
  "fold (\<lambda>iCore s. xSemaphoreTake s) xs st =
     st\<lparr>main_trace := main_trace st @ replicate (length xs) SemaphoreTake\<rparr>"
  by (induction xs arbitrary: st) (simp_all add: xSemaphoreTake_def replicate_app_Cons_same)

lemma contention_round_eq:
  "contention_round cfg c iIter st =
     st\<lparr>main_trace := main_trace st @ round_events cfg c (xProducerTaskHandles st)\<rparr>"
  by (simp add: contention_round_def Let_def notify_others_fold semaphore_take_fold
      xTaskNotifyGive_def round_events_def release_order_def)

lemma contention_rounds_fold:
  "fold (contention_round cfg c) xs st =
     st\<lparr>main_trace := main_trace st
           @ concat (replicate (length xs) (round_events cfg c (xProducerTaskHandles st)))\<rparr>"
  by (induction xs arbitrary: st) (simp_all add: contention_round_eq)

lemma print_fold:
  fixes st :: "'w::len word contention_state"
  shows "fold (\<lambda>iCore s. printf ''Core %d: %d\<newline>''
                 [ArgInt (int iCore),
                  ArgUBase (uxElapsedCumulative s ! iCore div of_nat (portTEST_NUM_SAMPLES cfg))] s) xs st =
     st\<lparr>stdout := stdout st @ average_lines cfg (uxElapsedCumulative st) xs\<rparr>"
  by (induction xs arbitrary: st) (simp_all add: printf_def average_lines_def)

lemma Test_QueueContention_eq:
  fixes st :: "'w::len word contention_state"
  shows "Test_QueueContention cfg c st =
     st\<lparr>main_trace := main_trace st
           @ concat (replicate (portTEST_NUM_SAMPLES cfg) (round_events cfg c (xProducerTaskHandles st))),
        stdout := stdout st
           @ Printf ''Time taken to fill %d items, averaged over %d samples\<newline>''
               [ArgInt (int (portTEST_NUM_ITEMS cfg)), ArgInt (int (portTEST_NUM_SAMPLES cfg))]
           # average_lines cfg (uxElapsedCumulative st) [0..<configNUMBER_OF_CORES cfg]\<rparr>"
  unfolding Test_QueueContention_def Let_def contention_rounds_fold print_fold
  by (simp add: printf_def)

lemma setup_create_loop:
  assumes "0 < portTEST_NUM_ITEMS cfg"
  shows "for_loop [0..<k] (setup_create cfg) st =
     Inr (st\<lparr>xQueueHandles := xQueueHandles st
                @ replicate k \<lparr>uxLength = portTEST_NUM_ITEMS cfg, messages = []\<rparr>,
             xProducerTaskHandles := xProducerTaskHandles st @ [0..<k]\<rparr>)"
proof (induction k)
  case 0
  show ?case by simp
next
  case (Suc k)
  have step: "setup_create cfg k s =
      Inr (s\<lparr>xQueueHandles := xQueueHandles s @ [\<lparr>uxLength = portTEST_NUM_ITEMS cfg, messages = []\<rparr>],
             xProducerTaskHandles := xProducerTaskHandles s @ [k]\<rparr>)" for s :: "'a contention_state"
    using assms
    by (simp add: setup_create_def xQueueCreate_def TEST_ASSERT_NOT_NULL_MESSAGE_def
        TEST_ASSERT_EQUAL_MESSAGE_def xTaskCreatePinnedToCore_def Let_def)
  show ?case
    by (simp add: for_loop_append Suc.IH step replicate_append_same)
qed

lemma setup_idf_ok:
  assumes "0 < configNUMBER_OF_CORES cfg" "0 < portTEST_NUM_ITEMS cfg"
  shows "setup_idf cfg = Inr (initial_state cfg)"
  using assms(1)
  by (simp add: setup_idf_def Let_def xSemaphoreCreateCounting_def TEST_ASSERT_NOT_NULL_MESSAGE_def
      setup_create_loop[OF assms(2)] initial_state_def)

lemma prvProducerTask_ok:
  fixes st :: "'w::len word contention_state"
  assumes ok: "arrays_ok core st"
    and room: "length (messages (xQueueHandles st ! core)) + portTEST_NUM_ITEMS cfg
                 \<le> uxLength (xQueueHandles st ! core)"
  shows "prvProducerTask cfg clk core st =
     Inr (log_producer core TaskSuspend (after_rounds cfg clk core (portTEST_NUM_SAMPLES cfg) st))"
  by (simp add: prvProducerTask_def producer_rounds_ok[OF ok room])

lemma upt_0_2: "[0..<2] = [0, 1]"
  by (simp add: numeral_2_eq_2)

lemma idf_config_simps:
  "configNUMBER_OF_CORES idf_config = 2" "portTEST_NUM_SAMPLES idf_config = 128"
  "portTEST_NUM_ITEMS idf_config = 256"
  by (simp_all add: idf_config_def)

lemma release_order_props:
  assumes "c < configNUMBER_OF_CORES cfg"
  shows "length (release_order cfg c) = configNUMBER_OF_CORES cfg"
    and "distinct (release_order cfg c)"
    and "set (release_order cfg c) = {0..<configNUMBER_OF_CORES cfg}"
proof -
  let ?N = "configNUMBER_OF_CORES cfg"
  have "[0..<?N] = [0..<c] @ c # [Suc c..<?N]"
    using assms
    by (metis less_imp_add_positive upt_add_eq_append upt_conv_Cons less_eq_nat.simps(1) le0 upt_rec)
  then have f: "filter (\<lambda>i. i \<noteq> c) [0..<?N] = [0..<c] @ [Suc c..<?N]"
    by (simp add: filter_id_conv)
  show "length (release_order cfg c) = ?N"
    using assms by (simp add: release_order_def f)
  show "distinct (release_order cfg c)"
    by (auto simp: release_order_def)
  show "set (release_order cfg c) = {0..<?N}"
    using assms by (auto simp: release_order_def)
qed

lemma nth_concat_replicate:
  "p < k * length xs \<Longrightarrow> concat (replicate k xs) ! p = xs ! (p mod length xs)"
proof (induction k arbitrary: p)
  case 0
  then show ?case by simp
next
  case (Suc k)
  show ?case
  proof (cases "p < length xs")
    case True
    then show ?thesis by (simp add: nth_append)
  next
    case False
    then have "p - length xs < k * length xs" using Suc.prems by simp
    from Suc.IH[OF this] show ?thesis using False by (simp add: nth_append le_mod_geq)
  qed
qed

subsection \<open>The critical-section test and word division\<close>

lemma crit_sample_fields:
  fixes st :: "'w::len word crit_state"
  shows "uxEntryElapsedCumulative (crit_sample clk i st) =
           uxEntryElapsedCumulative st + (clk (crit_reads st + 1) - clk (crit_reads st))"
    and "uxExitElapsedCumulative (crit_sample clk i st) =
           uxExitElapsedCumulative st + (clk (crit_reads st + 3) - clk (crit_reads st + 2))"
    and "crit_reads (crit_sample clk i st) = crit_reads st + 4"
    and "crit_trace (crit_sample clk i st) =
           crit_trace st @ [CritGetTime (clk (crit_reads st)), EnterCritical,
                            CritGetTime (clk (crit_reads st + 1)),
                            CritGetTime (clk (crit_reads st + 2)), ExitCritical,
                            CritGetTime (clk (crit_reads st + 3))]"
    and "crit_stdout (crit_sample clk i st) = crit_stdout st"
  by (simp_all add: crit_sample_def portTEST_GET_TIME_crit_def Let_def numeral_3_eq_3 numeral_2_eq_2)

lemma crit_samples_fold:
  fixes clk :: "nat \<Rightarrow> 'w::len word"
  defines "st0 \<equiv> \<lparr>uxEntryElapsedCumulative = 0, uxExitElapsedCumulative = 0, uxTemp = 0,
                 crit_reads = 0, crit_trace = [], crit_stdout = []\<rparr>"
  shows "uxEntryElapsedCumulative (fold (crit_sample clk) [0..<k] st0)
           = (\<Sum>i<k. clk (4 * i + 1) - clk (4 * i))
       \<and> uxExitElapsedCumulative (fold (crit_sample clk) [0..<k] st0)
           = (\<Sum>i<k. clk (4 * i + 3) - clk (4 * i + 2))
       \<and> crit_reads (fold (crit_sample clk) [0..<k] st0) = 4 * k
       \<and> crit_trace (fold (crit_sample clk) [0..<k] st0)
           = concat (map (crit_sample_trace clk) [0..<k])
       \<and> crit_stdout (fold (crit_sample clk) [0..<k] st0) = []"
proof (induction k)
  case 0
  show ?case by (simp add: st0_def)
next
  case (Suc k)
  then show ?case
    by (simp add: crit_sample_fields crit_sample_trace_def)
qed

lemma word_div_of_nat:
  fixes x :: "'w::len word"
  assumes "n < 2 ^ LENGTH('w)"
  shows "x div of_nat n = of_nat (unat x div n)"
    and "unat (of_nat (unat x div n) :: 'w word) = unat x div n"
proof -
  have "unat x div n \<le> unat x" by (rule div_le_dividend)
  also have "unat x < 2 ^ LENGTH('w)" by (rule unsigned_less)
  finally have small: "unat x div n < 2 ^ LENGTH('w)" .
  show r: "unat (of_nat (unat x div n) :: 'w word) = unat x div n"
    using small by (simp add: unat_of_nat)
  have "unat (x div of_nat n) = unat x div n"
    using assms by (simp add: unat_div unat_of_nat)
  then show "x div of_nat n = of_nat (unat x div n)"
    by (simp add: word_unat_eq_iff r)
qed

lemma crit_print_fields:
  fixes clk :: "nat \<Rightarrow> 'w::len word"
  shows "uxEntryElapsedCumulative (Test_CriticalSectionSpeed cfg clk)
          = uxEntryElapsedCumulative (fold (crit_sample clk) [0..<portTEST_NUM_SAMPLES cfg]
              \<lparr>uxEntryElapsedCumulative = 0, uxExitElapsedCumulative = 0, uxTemp = 0,
                 crit_reads = 0, crit_trace = [], crit_stdout = []\<rparr>)"
    and "uxExitElapsedCumulative (Test_CriticalSectionSpeed cfg clk)
          = uxExitElapsedCumulative (fold (crit_sample clk) [0..<portTEST_NUM_SAMPLES cfg]
              \<lparr>uxEntryElapsedCumulative = 0, uxExitElapsedCumulative = 0, uxTemp = 0,
                 crit_reads = 0, crit_trace = [], crit_stdout = []\<rparr>)"
    and "crit_stdout (Test_CriticalSectionSpeed cfg clk) =
           [Printf ''taskENTER_CRITICAL() average elapsed time: %u\<newline>''
              [ArgUBase (uxEntryElapsedCumulative (Test_CriticalSectionSpeed cfg clk)
                         div of_nat (portTEST_NUM_SAMPLES cfg))],
            Printf ''taskEXIT_CRITICAL() average elapsed time: %u\<newline>''
              [ArgUBase (uxExitElapsedCumulative (Test_CriticalSectionSpeed cfg clk)
                         div of_nat (portTEST_NUM_SAMPLES cfg))]]"
  using crit_samples_fold[of clk "portTEST_NUM_SAMPLES cfg"]
  by (simp_all add: Test_CriticalSectionSpeed_def Let_def)

subsection \<open>The state after setup\<close>

lemma setup_idf_Inr:
  fixes st0 :: "'w::len word contention_state"
  assumes "setup_idf cfg = Inr st0" and N: "0 < configNUMBER_OF_CORES cfg"
  shows "0 < portTEST_NUM_ITEMS cfg" and "st0 = initial_state cfg"
proof -
  show items: "0 < portTEST_NUM_ITEMS cfg"
  proof (rule ccontr)
    assume "\<not> 0 < portTEST_NUM_ITEMS cfg"
    then have z: "portTEST_NUM_ITEMS cfg = 0" by simp
    have "[0..<configNUMBER_OF_CORES cfg] = 0 # [Suc 0..<configNUMBER_OF_CORES cfg]"
      using N by (simp add: upt_conv_Cons)
    then have "\<exists>e. (setup_idf cfg :: failure + 'w word contention_state) = Inl e"
      using N
      by (simp add: setup_idf_def Let_def xSemaphoreCreateCounting_def TEST_ASSERT_NOT_NULL_MESSAGE_def
          setup_create_def xQueueCreate_def z)
    with assms(1) show False by auto
  qed
  show "st0 = initial_state cfg"
  proof -
    have "setup_idf cfg = Inr (initial_state cfg :: 'w word contention_state)"
      by (rule setup_idf_ok[OF N items])
    with assms(1) show ?thesis by simp
  qed
qed

lemma rounds_trace_sends:
  assumes "e \<in> set (rounds_trace cfg clk core r k)" "e = QueueSend c v res"
  shows "res = pdTRUE \<and> c = core"
  using assms by (auto simp: rounds_trace_def round_trace_def split: if_splits)

subsection \<open>A send that fails\<close>



lemma upt_split_at:
  assumes "k < n"
  shows "[0..<n] = [0..<k] @ k # [Suc k..<n]"
  using assms by (metis less_imp_add_positive upt_add_eq_append upt_conv_Cons le0)

subsection \<open>Sums of words\<close>

lemma unat_sum_mod:
  fixes f :: "nat \<Rightarrow> 'w::len word"
  shows "unat (\<Sum>i<k. f i) = true_sum k f mod 2 ^ LENGTH('w)"
proof (induction k)
  case 0
  show ?case by (simp add: true_sum_def)
next
  case (Suc k)
  have "unat ((\<Sum>i<k. f i) + f k) = (unat (\<Sum>i<k. f i) + unat (f k)) mod 2 ^ LENGTH('w)"
    by (simp add: unat_word_ariths)
  also have "\<dots> = (true_sum k f mod 2 ^ LENGTH('w) + unat (f k)) mod 2 ^ LENGTH('w)"
    by (simp only: Suc.IH)
  also have "\<dots> = (true_sum k f + unat (f k)) mod 2 ^ LENGTH('w)"
    by (simp add: mod_add_left_eq)
  finally show ?case by (simp add: true_sum_def)
qed

lemma wrapped_mean_iff:
  fixes S n M :: nat
  assumes n: "0 < n" "n \<le> M"
  shows "(S mod M) div n = S div n \<longleftrightarrow> S < M"
proof
  assume "S < M"
  then show "(S mod M) div n = S div n" by simp
next
  assume eq: "(S mod M) div n = S div n"
  show "S < M"
  proof (rule ccontr)
    assume "\<not> S < M"
    then have ge: "M \<le> S" by simp
    have M: "0 < M" using n by simp
    have "S div M \<ge> 1" using ge M by (simp add: div_greater_zero_iff Suc_le_eq)
    then have "M * 1 \<le> M * (S div M)" by (intro mult_le_mono2)
    moreover have "S = M * (S div M) + S mod M" by simp
    ultimately have "S mod M + M \<le> S" by linarith
    then have "S mod M + n \<le> S" using n(2) by linarith
    then have "(S mod M + n) div n \<le> S div n" by (rule div_le_mono)
    moreover have "(S mod M + n) div n = (S mod M) div n + 1"
      using n(1) by (simp add: div_add_self2)
    ultimately have "(S mod M) div n + 1 \<le> S div n" by (simp only:)
    with eq show False by simp
  qed
qed

lemma printed_average_of_word:
  fixes a :: "'w::len word"
  assumes n: "0 < n" "n < 2 ^ LENGTH('w)"
  shows "unat (a div of_nat n) = unat a div n"
  using n by (simp add: unat_div unat_of_nat)

lemma crit_fields_sum:
  fixes cclk :: "nat \<Rightarrow> 'w::len word"
  shows "uxEntryElapsedCumulative (Test_CriticalSectionSpeed cfg cclk)
           = (\<Sum>i<portTEST_NUM_SAMPLES cfg. cclk (4 * i + 1) - cclk (4 * i))"
    and "uxExitElapsedCumulative (Test_CriticalSectionSpeed cfg cclk)
           = (\<Sum>i<portTEST_NUM_SAMPLES cfg. cclk (4 * i + 3) - cclk (4 * i + 2))"
  using crit_samples_fold[of cclk "portTEST_NUM_SAMPLES cfg"]
  by (simp_all add: crit_print_fields(1,2))

subsection \<open>The queue-speed test\<close>

lemma qspeed_send_ok:
  fixes st :: "'w::len word qspeed_state"
  assumes "length (messages (xQueueHandle st)) < uxLength (xQueueHandle st)"
  shows "qspeed_send clk i st =
     Inr (st\<lparr>xQueueHandle := (xQueueHandle st)\<lparr>messages := messages (xQueueHandle st) @ [int i]\<rparr>,
             uxSendElapsedCumulative :=
               uxSendElapsedCumulative st + (clk (Suc (qs_reads st)) - clk (qs_reads st)),
             uxTemp_qs := clk (qs_reads st),
             qs_reads := qs_reads st + 2,
             qs_trace := qs_trace st @ [QsGetTime (clk (qs_reads st)), QsSend (int i) pdTRUE,
                                        QsGetTime (clk (Suc (qs_reads st)))]\<rparr>)"
  using assms
  by (simp add: qspeed_send_def portTEST_GET_TIME_qs_def xQueueSend_def TEST_ASSERT_EQUAL_MESSAGE_def Let_def)

lemma qspeed_receive_ok:
  fixes st :: "'w::len word qspeed_state"
  assumes "messages (xQueueHandle st) = v # vs"
  shows "qspeed_receive clk i st =
     Inr (st\<lparr>xQueueHandle := (xQueueHandle st)\<lparr>messages := vs\<rparr>,
             uxRecvElapsedCumulative :=
               uxRecvElapsedCumulative st + (clk (Suc (qs_reads st)) - clk (qs_reads st)),
             uxTemp_qs := clk (qs_reads st),
             qs_reads := qs_reads st + 2,
             qs_trace := qs_trace st @ [QsGetTime (clk (qs_reads st)), QsReceive (Some v) pdTRUE,
                                        QsGetTime (clk (Suc (qs_reads st)))]\<rparr>)"
  using assms
  by (simp add: qspeed_receive_def portTEST_GET_TIME_qs_def xQueueReceive_def
      TEST_ASSERT_EQUAL_MESSAGE_def Let_def)

lemma qspeed_sends:
  fixes st0 :: "'w::len word qspeed_state"
  assumes q0: "xQueueHandle st0 = \<lparr>uxLength = L, messages = []\<rparr>" and k: "k \<le> L"
  shows "\<exists>s. for_loop [0..<k] (qspeed_send clk) st0 = Inr s
     \<and> xQueueHandle s = \<lparr>uxLength = L, messages = map int [0..<k]\<rparr>
     \<and> qs_reads s = qs_reads st0 + 2 * k
     \<and> qs_trace s = qs_trace st0
         @ concat (map (\<lambda>i. [QsGetTime (clk (qs_reads st0 + 2 * i)), QsSend (int i) pdTRUE,
                               QsGetTime (clk (qs_reads st0 + 2 * i + 1))]) [0..<k])
     \<and> qs_stdout s = qs_stdout st0"
  using k
proof (induction k)
  case 0
  show ?case by (simp add: q0)
next
  case (Suc k)
  then obtain s where s: "for_loop [0..<k] (qspeed_send clk) st0 = Inr s"
    and q: "xQueueHandle s = \<lparr>uxLength = L, messages = map int [0..<k]\<rparr>"
    and r: "qs_reads s = qs_reads st0 + 2 * k"
    and t: "qs_trace s = qs_trace st0
         @ concat (map (\<lambda>i. [QsGetTime (clk (qs_reads st0 + 2 * i)), QsSend (int i) pdTRUE,
                               QsGetTime (clk (qs_reads st0 + 2 * i + 1))]) [0..<k])"
    and out: "qs_stdout s = qs_stdout st0"
    by auto
  have room: "length (messages (xQueueHandle s)) < uxLength (xQueueHandle s)"
    using Suc.prems by (simp add: q)
  show ?case
    by (simp add: for_loop_append s qspeed_send_ok[OF room] q r t out)
qed

lemma qspeed_receives:
  fixes s1 :: "'w::len word qspeed_state"
  assumes q1: "xQueueHandle s1 = \<lparr>uxLength = L, messages = map int [0..<n]\<rparr>" and k: "k \<le> n"
  shows "\<exists>s. for_loop [0..<k] (qspeed_receive clk) s1 = Inr s
     \<and> xQueueHandle s = \<lparr>uxLength = L, messages = map int [k..<n]\<rparr>
     \<and> qs_reads s = qs_reads s1 + 2 * k
     \<and> qs_trace s = qs_trace s1
         @ concat (map (\<lambda>i. [QsGetTime (clk (qs_reads s1 + 2 * i)), QsReceive (Some (int i)) pdTRUE,
                               QsGetTime (clk (qs_reads s1 + 2 * i + 1))]) [0..<k])
     \<and> qs_stdout s = qs_stdout s1"
  using k
proof (induction k)
  case 0
  show ?case by (simp add: q1)
next
  case (Suc k)
  then obtain s where s: "for_loop [0..<k] (qspeed_receive clk) s1 = Inr s"
    and q: "xQueueHandle s = \<lparr>uxLength = L, messages = map int [k..<n]\<rparr>"
    and r: "qs_reads s = qs_reads s1 + 2 * k"
    and t: "qs_trace s = qs_trace s1
         @ concat (map (\<lambda>i. [QsGetTime (clk (qs_reads s1 + 2 * i)), QsReceive (Some (int i)) pdTRUE,
                               QsGetTime (clk (qs_reads s1 + 2 * i + 1))]) [0..<k])"
    and out: "qs_stdout s = qs_stdout s1"
    by auto
  have "[k..<n] = k # [Suc k..<n]"
    using Suc.prems by (simp add: upt_conv_Cons)
  then have hd: "messages (xQueueHandle s) = int k # map int [Suc k..<n]"
    by (simp add: q)
  show ?case
    by (simp add: for_loop_append s qspeed_receive_ok[OF hd] q r t out)
qed

lemma Test_QueueSpeedNonBlocking_ok:
  fixes clk :: "nat \<Rightarrow> 'w::len word"
  shows "\<exists>st. Test_QueueSpeedNonBlocking cfg clk \<lparr>uxLength = portTEST_NUM_SAMPLES cfg, messages = []\<rparr> = Inr st
     \<and> xQueueHandle st = \<lparr>uxLength = portTEST_NUM_SAMPLES cfg, messages = []\<rparr>
     \<and> qs_trace st =
         concat (map (\<lambda>i. [QsGetTime (clk (2 * i)), QsSend (int i) pdTRUE, QsGetTime (clk (2 * i + 1))])
                   [0..<portTEST_NUM_SAMPLES cfg])
         @ concat (map (\<lambda>i. [QsGetTime (clk (2 * portTEST_NUM_SAMPLES cfg + 2 * i)),
                               QsReceive (Some (int i)) pdTRUE,
                               QsGetTime (clk (2 * portTEST_NUM_SAMPLES cfg + 2 * i + 1))])
                   [0..<portTEST_NUM_SAMPLES cfg])
     \<and> length (qs_stdout st) = 2"
proof -
  let ?n = "portTEST_NUM_SAMPLES cfg"
  let ?st0 = "\<lparr>xQueueHandle = \<lparr>uxLength = ?n, messages = []\<rparr>, uxSendElapsedCumulative = 0,
                uxRecvElapsedCumulative = 0, uxTemp_qs = 0, qs_reads = 0, qs_trace = [],
                qs_stdout = []\<rparr> :: 'w word qspeed_state"
  obtain s1 where s1: "for_loop [0..<?n] (qspeed_send clk) ?st0 = Inr s1"
    and q1: "xQueueHandle s1 = \<lparr>uxLength = ?n, messages = map int [0..<?n]\<rparr>"
    and r1: "qs_reads s1 = 2 * ?n"
    and t1: "qs_trace s1 =
       concat (map (\<lambda>i. [QsGetTime (clk (2 * i)), QsSend (int i) pdTRUE, QsGetTime (clk (2 * i + 1))])
                 [0..<?n])"
    and o1: "qs_stdout s1 = []"
    using qspeed_sends[of ?st0 ?n ?n clk] by auto
  obtain s2 where s2: "for_loop [0..<?n] (qspeed_receive clk) s1 = Inr s2"
    and q2: "xQueueHandle s2 = \<lparr>uxLength = ?n, messages = map int [?n..<?n]\<rparr>"
    and t2: "qs_trace s2 = qs_trace s1
         @ concat (map (\<lambda>i. [QsGetTime (clk (qs_reads s1 + 2 * i)), QsReceive (Some (int i)) pdTRUE,
                               QsGetTime (clk (qs_reads s1 + 2 * i + 1))]) [0..<?n])"
    and o2: "qs_stdout s2 = qs_stdout s1"
    using qspeed_receives[OF q1, of ?n clk] by auto
  show ?thesis
    by (simp add: Test_QueueSpeedNonBlocking_def Let_def s1 s2 q2 t2 t1 r1 o2 o1)
qed

subsection \<open>The parts of the two functions of queue\_contention.c\<close>


lemma print_results_eq:
  fixes st :: "'w::len word contention_state"
  shows "print_results cfg st =
     st\<lparr>stdout := stdout st
           @ Printf ''Time taken to fill %d items, averaged over %d samples\<newline>''
               [ArgInt (int (portTEST_NUM_ITEMS cfg)), ArgInt (int (portTEST_NUM_SAMPLES cfg))]
           # average_lines cfg (uxElapsedCumulative st) [0..<configNUMBER_OF_CORES cfg]\<rparr>"
  unfolding print_results_def Let_def print_fold
  by (simp add: printf_def)

lemma Test_QueueContention_parts:
  fixes st :: "'w::len word contention_state"
  shows "Test_QueueContention cfg xCoreID st =
     print_results cfg (fold (contention_round cfg xCoreID) [0..<portTEST_NUM_SAMPLES cfg] st)"
  by (simp add: Test_QueueContention_def print_results_def Let_def)

lemma main_calls_of_eq:
  assumes c: "xCoreID < configNUMBER_OF_CORES cfg"
    and h: "xProducerTaskHandles st = [0..<configNUMBER_OF_CORES cfg]"
  shows "main_calls_of cfg xCoreID st = main_program cfg xCoreID"
proof -
  let ?N = "configNUMBER_OF_CORES cfg"
  have eq: "map (\<lambda>iCore. TaskNotifyGive ([0..<?N] ! iCore)) (release_order cfg xCoreID)
          = map TaskNotifyGive (release_order cfg xCoreID)"
    using release_order_props(3)[OF c] by (intro map_cong) auto
  show ?thesis
    by (simp add: main_calls_of_def contention_rounds_fold round_events_def h eq main_program_def)
qed

lemma main_trace_loop:
  assumes c: "xCoreID < configNUMBER_OF_CORES cfg"
    and h: "xProducerTaskHandles st = [0..<configNUMBER_OF_CORES cfg]"
  shows "main_trace (Test_QueueContention cfg xCoreID st) = main_trace st @ main_calls_of cfg xCoreID st"
  by (simp add: Test_QueueContention_eq main_calls_of_def contention_rounds_fold)

lemma producer_work_ok:
  fixes st :: "'w::len word contention_state"
  assumes ok: "arrays_ok core st"
    and room: "length (messages (xQueueHandles st ! core)) + portTEST_NUM_ITEMS cfg
                 \<le> uxLength (xQueueHandles st ! core)"
  shows "producer_work cfg clk core st =
     Inr (st\<lparr>xQueueHandles := (xQueueHandles st)[core := (xQueueHandles st ! core)\<lparr>messages := []\<rparr>],
             uxElapsedCumulative := (uxElapsedCumulative st)
               [core := uxElapsedCumulative st ! core
                        + (clk core (Suc (ccount_reads st ! core)) - clk core (ccount_reads st ! core))],
             ccount_reads := (ccount_reads st)[core := ccount_reads st ! core + 2],
             producer_trace := (producer_trace st)
               [core := producer_trace st ! core
                        @ [GetTime (clk core (ccount_reads st ! core))]
                        @ map (\<lambda>k. QueueSend core (int k) pdTRUE) [0..<portTEST_NUM_ITEMS cfg]
                        @ [GetTime (clk core (Suc (ccount_reads st ! core))), QueueReset core]]\<rparr>)"
proof -
  let ?r = "ccount_reads st ! core"
  define st2 where "st2 = snd (portTEST_GET_TIME clk core st)"
  have st2: "st2 = st\<lparr>ccount_reads := (ccount_reads st)[core := Suc ?r],
                      producer_trace := (producer_trace st)
                        [core := producer_trace st ! core @ [GetTime (clk core ?r)]]\<rparr>"
    using ok by (simp add: st2_def portTEST_GET_TIME_def log_producer_def Let_def arrays_ok_def)
  have t0: "fst (portTEST_GET_TIME clk core st) = clk core ?r"
    by (simp add: portTEST_GET_TIME_def log_producer_def Let_def)
  have a: "core < length (xQueueHandles st2)" "core < length (producer_trace st2)"
    using ok by (simp_all add: st2 arrays_ok_def)
  have b: "length (messages (xQueueHandles st2 ! core)) + length [0..<portTEST_NUM_ITEMS cfg]
             \<le> uxLength (xQueueHandles st2 ! core)"
    using room by (simp add: st2)
  note sends = producer_sends_ok[OF a b]
  show ?thesis
    unfolding producer_work_def Let_def st2_def[symmetric] t0
    apply (simp only: sends sum.case)
    using ok
    apply (simp add: st2 portTEST_GET_TIME_def log_producer_def Let_def arrays_ok_def
        xQueueReset_def)
    done
qed

lemma producer_work_commute:
  fixes st :: "'w::len word contention_state"
  assumes ne: "c1 \<noteq> c2"
    and ok1: "arrays_ok c1 st" and ok2: "arrays_ok c2 st"
    and room1: "length (messages (xQueueHandles st ! c1)) + portTEST_NUM_ITEMS cfg
                  \<le> uxLength (xQueueHandles st ! c1)"
    and room2: "length (messages (xQueueHandles st ! c2)) + portTEST_NUM_ITEMS cfg
                  \<le> uxLength (xQueueHandles st ! c2)"
  shows "(case producer_work cfg clk c1 st of Inl e \<Rightarrow> Inl e | Inr st' \<Rightarrow> producer_work cfg clk c2 st')
       = (case producer_work cfg clk c2 st of Inl e \<Rightarrow> Inl e | Inr st' \<Rightarrow> producer_work cfg clk c1 st')"
proof -
  obtain s1 where a1: "producer_work cfg clk c1 st = Inr s1"
    and s1: "s1 = st\<lparr>xQueueHandles := (xQueueHandles st)[c1 := (xQueueHandles st ! c1)\<lparr>messages := []\<rparr>],
             uxElapsedCumulative := (uxElapsedCumulative st)
               [c1 := uxElapsedCumulative st ! c1
                        + (clk c1 (Suc (ccount_reads st ! c1)) - clk c1 (ccount_reads st ! c1))],
             ccount_reads := (ccount_reads st)[c1 := ccount_reads st ! c1 + 2],
             producer_trace := (producer_trace st)
               [c1 := producer_trace st ! c1
                        @ [GetTime (clk c1 (ccount_reads st ! c1))]
                        @ map (\<lambda>k. QueueSend c1 (int k) pdTRUE) [0..<portTEST_NUM_ITEMS cfg]
                        @ [GetTime (clk c1 (Suc (ccount_reads st ! c1))), QueueReset c1]]\<rparr>"
    using producer_work_ok[OF ok1 room1] by blast
  obtain s2 where a2: "producer_work cfg clk c2 st = Inr s2"
    and s2: "s2 = st\<lparr>xQueueHandles := (xQueueHandles st)[c2 := (xQueueHandles st ! c2)\<lparr>messages := []\<rparr>],
             uxElapsedCumulative := (uxElapsedCumulative st)
               [c2 := uxElapsedCumulative st ! c2
                        + (clk c2 (Suc (ccount_reads st ! c2)) - clk c2 (ccount_reads st ! c2))],
             ccount_reads := (ccount_reads st)[c2 := ccount_reads st ! c2 + 2],
             producer_trace := (producer_trace st)
               [c2 := producer_trace st ! c2
                        @ [GetTime (clk c2 (ccount_reads st ! c2))]
                        @ map (\<lambda>k. QueueSend c2 (int k) pdTRUE) [0..<portTEST_NUM_ITEMS cfg]
                        @ [GetTime (clk c2 (Suc (ccount_reads st ! c2))), QueueReset c2]]\<rparr>"
    using producer_work_ok[OF ok2 room2] by blast
  have ok21: "arrays_ok c2 s1" using ok2 by (simp add: arrays_ok_def s1)
  have ok12: "arrays_ok c1 s2" using ok1 by (simp add: arrays_ok_def s2)
  have room21: "length (messages (xQueueHandles s1 ! c2)) + portTEST_NUM_ITEMS cfg
                  \<le> uxLength (xQueueHandles s1 ! c2)"
    using room2 ne by (simp add: s1)
  have room12: "length (messages (xQueueHandles s2 ! c1)) + portTEST_NUM_ITEMS cfg
                  \<le> uxLength (xQueueHandles s2 ! c1)"
    using room1 ne by (simp add: s2)
  show ?thesis
    unfolding a1 a2 sum.case producer_work_ok[OF ok21 room21] producer_work_ok[OF ok12 room12]
    using ne ok1 ok2
    by (simp add: s1 s2 arrays_ok_def list_update_swap[of c1 c2])
qed

subsection \<open>The report of a failed send\<close>






subsection \<open>The barrier\<close>

lemma in_round_update:
  "in_round (s\<lparr>producer_at := (producer_at s)(w := pc)\<rparr>) =
     (in_round s)(w := (pc = AtWork \<or> pc = AtGive))"
  by (simp add: in_round_def fun_eq_iff)

lemma in_round_other:
  "in_round (s\<lparr>shared := a\<rparr>) = in_round s"
  "in_round (s\<lparr>ulNotifiedValue := b\<rparr>) = in_round s"
  "in_round (s\<lparr>uxSemaphoreCount := c\<rparr>) = in_round s"
  "in_round (s\<lparr>iSamples_of := d\<rparr>) = in_round s"
  "in_round (s\<lparr>main_calls := e\<rparr>) = in_round s"
  "in_round (s\<lparr>main_returned := f\<rparr>) = in_round s"
  "in_round (s\<lparr>aborted := g\<rparr>) = in_round s"
  by (simp_all add: in_round_def fun_eq_iff)

lemma barrier_inv_start: "barrier_inv cfg c (system_start st0)"
  by (simp add: barrier_inv_def system_start_def in_round_def)

lemma main_program_length:
  assumes c: "c < configNUMBER_OF_CORES cfg"
  shows "length (main_program cfg c) = portTEST_NUM_SAMPLES cfg * (2 * configNUMBER_OF_CORES cfg)"
  by (simp add: main_program_def length_concat sum_list_replicate release_order_props(1)[OF c])

lemma main_program_nth:
  assumes c: "c < configNUMBER_OF_CORES cfg"
    and p: "p < portTEST_NUM_SAMPLES cfg * (2 * configNUMBER_OF_CORES cfg)"
  shows "main_program cfg c ! p =
     (if p mod (2 * configNUMBER_OF_CORES cfg) < configNUMBER_OF_CORES cfg
      then TaskNotifyGive (release_order cfg c ! (p mod (2 * configNUMBER_OF_CORES cfg)))
      else SemaphoreTake)"
proof -
  let ?N = "configNUMBER_OF_CORES cfg"
  let ?round = "map TaskNotifyGive (release_order cfg c) @ replicate ?N SemaphoreTake"
  have len: "length ?round = 2 * ?N"
    by (simp add: release_order_props(1)[OF c])
  have "main_program cfg c ! p = ?round ! (p mod (2 * ?N))"
    using nth_concat_replicate[of p "portTEST_NUM_SAMPLES cfg" ?round] p
    by (simp only: main_program_def len)
  moreover have "p mod (2 * ?N) < 2 * ?N" using c by simp
  ultimately show ?thesis
    by (simp add: nth_append release_order_props(1)[OF c])
qed

lemma Suc_div_mod_same:
  assumes "Suc (p mod m) < m"
  shows "Suc p div m = p div m" "Suc p mod m = Suc (p mod m)"
  using assms by (simp_all add: div_Suc mod_Suc)

lemma Suc_div_mod_wrap:
  assumes "Suc (p mod m) = m"
  shows "Suc p div m = Suc (p div m)" "Suc p mod m = 0"
  using assms by (simp_all add: div_Suc mod_Suc)

lemma nth_not_in_take:
  assumes "distinct xs" "z < length xs"
  shows "xs ! z \<notin> set (take z xs)"
proof -
  have "take (Suc z) xs = take z xs @ [xs ! z]"
    using assms(2) by (rule take_Suc_conv_app_nth)
  moreover have "distinct (take (Suc z) xs)"
    using assms(1) by (rule distinct_take)
  ultimately show ?thesis by simp
qed

lemma barrier_inv_parts:
  assumes "barrier_inv cfg c s"
  shows "main_calls s \<le> portTEST_NUM_SAMPLES cfg * (2 * configNUMBER_OF_CORES cfg)"
    and "\<And>w. w < configNUMBER_OF_CORES cfg \<Longrightarrow>
           (iSamples_of s w = main_calls s div (2 * configNUMBER_OF_CORES cfg)
              \<and> (if w \<in> set (take (main_calls s mod (2 * configNUMBER_OF_CORES cfg)) (release_order cfg c))
                  then (ulNotifiedValue s w = 1 \<and> \<not> in_round s w)
                       \<or> (ulNotifiedValue s w = 0 \<and> in_round s w)
                  else ulNotifiedValue s w = 0 \<and> \<not> in_round s w))
         \<or> (iSamples_of s w = Suc (main_calls s div (2 * configNUMBER_OF_CORES cfg))
              \<and> w \<in> set (take (main_calls s mod (2 * configNUMBER_OF_CORES cfg)) (release_order cfg c))
              \<and> ulNotifiedValue s w = 0 \<and> \<not> in_round s w)"
    and "uxSemaphoreCount s
           + (main_calls s mod (2 * configNUMBER_OF_CORES cfg) - configNUMBER_OF_CORES cfg)
         = card {w. w < configNUMBER_OF_CORES cfg
                    \<and> iSamples_of s w = Suc (main_calls s div (2 * configNUMBER_OF_CORES cfg))}"
  using assms unfolding barrier_inv_def Let_def by blast+

lemma barrier_invI:
  assumes "main_calls s \<le> portTEST_NUM_SAMPLES cfg * (2 * configNUMBER_OF_CORES cfg)"
    and "\<And>w. w < configNUMBER_OF_CORES cfg \<Longrightarrow>
           (iSamples_of s w = main_calls s div (2 * configNUMBER_OF_CORES cfg)
              \<and> (if w \<in> set (take (main_calls s mod (2 * configNUMBER_OF_CORES cfg)) (release_order cfg c))
                  then (ulNotifiedValue s w = 1 \<and> \<not> in_round s w)
                       \<or> (ulNotifiedValue s w = 0 \<and> in_round s w)
                  else ulNotifiedValue s w = 0 \<and> \<not> in_round s w))
         \<or> (iSamples_of s w = Suc (main_calls s div (2 * configNUMBER_OF_CORES cfg))
              \<and> w \<in> set (take (main_calls s mod (2 * configNUMBER_OF_CORES cfg)) (release_order cfg c))
              \<and> ulNotifiedValue s w = 0 \<and> \<not> in_round s w)"
    and "uxSemaphoreCount s
           + (main_calls s mod (2 * configNUMBER_OF_CORES cfg) - configNUMBER_OF_CORES cfg)
         = card {w. w < configNUMBER_OF_CORES cfg
                    \<and> iSamples_of s w = Suc (main_calls s div (2 * configNUMBER_OF_CORES cfg))}"
  shows "barrier_inv cfg c s"
  using assms unfolding barrier_inv_def Let_def by blast

lemma barrier_inv_same:
  assumes "barrier_inv cfg c s"
    and "main_calls s' = main_calls s" "ulNotifiedValue s' = ulNotifiedValue s"
    and "uxSemaphoreCount s' = uxSemaphoreCount s" "iSamples_of s' = iSamples_of s"
    and "in_round s' = in_round s"
  shows "barrier_inv cfg c s'"
  using assms(1) unfolding barrier_inv_def Let_def assms(2-) .

lemma barrier_inv_release:
  assumes c: "c < configNUMBER_OF_CORES cfg"
    and inv: "barrier_inv cfg c s"
    and z: "main_calls s mod (2 * configNUMBER_OF_CORES cfg) < configNUMBER_OF_CORES cfg"
    and p: "main_calls s < portTEST_NUM_SAMPLES cfg * (2 * configNUMBER_OF_CORES cfg)"
    and mc: "main_calls s' = Suc (main_calls s)"
    and nv: "ulNotifiedValue s' = (ulNotifiedValue s)
                (release_order cfg c ! (main_calls s mod (2 * configNUMBER_OF_CORES cfg))
                   := Suc (ulNotifiedValue s
                        (release_order cfg c ! (main_calls s mod (2 * configNUMBER_OF_CORES cfg)))))"
    and same: "uxSemaphoreCount s' = uxSemaphoreCount s" "iSamples_of s' = iSamples_of s"
      "in_round s' = in_round s"
  shows "barrier_inv cfg c s'"
proof -
  let ?N = "configNUMBER_OF_CORES cfg"
  let ?z = "main_calls s mod (2 * ?N)"
  let ?R = "main_calls s div (2 * ?N)"
  let ?ord = "release_order cfg c"
  let ?w = "?ord ! ?z"
  note ro = release_order_props[OF c]
  have dm: "Suc (main_calls s) div (2 * ?N) = ?R" "Suc (main_calls s) mod (2 * ?N) = Suc ?z"
    using z by (simp_all add: Suc_div_mod_same)
  have tk: "take (Suc ?z) ?ord = take ?z ?ord @ [?w]"
    using z ro(1) by (simp add: take_Suc_conv_app_nth)
  have w_new: "?w \<notin> set (take ?z ?ord)"
    using z ro(1,2) by (simp add: nth_not_in_take)
  have w_lt: "?w < ?N"
    using z ro(1,3) by (metis atLeastLessThan_iff nth_mem)
  have old: "iSamples_of s ?w = ?R \<and> ulNotifiedValue s ?w = 0 \<and> \<not> in_round s ?w"
    using inv w_lt w_new unfolding barrier_inv_def Let_def by auto
  show ?thesis
    using inv z p old w_new
    unfolding barrier_inv_def Let_def mc nv same
    by (simp add: dm tk) (auto split: if_splits)
qed

lemma barrier_inv_take:
  assumes c: "c < configNUMBER_OF_CORES cfg"
    and inv: "barrier_inv cfg c s"
    and z: "configNUMBER_OF_CORES cfg \<le> main_calls s mod (2 * configNUMBER_OF_CORES cfg)"
    and p: "main_calls s < portTEST_NUM_SAMPLES cfg * (2 * configNUMBER_OF_CORES cfg)"
    and sem: "0 < uxSemaphoreCount s"
    and mc: "main_calls s' = Suc (main_calls s)"
    and sc: "uxSemaphoreCount s' = uxSemaphoreCount s - 1"
    and same: "ulNotifiedValue s' = ulNotifiedValue s" "iSamples_of s' = iSamples_of s"
      "in_round s' = in_round s"
  shows "barrier_inv cfg c s'"
proof -
  let ?N = "configNUMBER_OF_CORES cfg"
  let ?z = "main_calls s mod (2 * ?N)"
  let ?R = "main_calls s div (2 * ?N)"
  let ?ord = "release_order cfg c"
  let ?S = "{w. w < ?N \<and> iSamples_of s w = Suc ?R}"
  note ro = release_order_props[OF c]
  note parts = barrier_inv_parts[OF inv]
  have N: "0 < ?N" using c by simp
  have zlt: "?z < 2 * ?N" using N by simp
  have all_rel: "take ?z ?ord = ?ord"
    using z ro(1) by simp
  show ?thesis
  proof (cases "Suc ?z < 2 * ?N")
    case True
    have dm: "Suc (main_calls s) div (2 * ?N) = ?R" "Suc (main_calls s) mod (2 * ?N) = Suc ?z"
      using True by (simp_all add: Suc_div_mod_same)
    have all_rel': "take (Suc ?z) ?ord = ?ord"
      using z ro(1) by simp
    show ?thesis
    proof (rule barrier_invI)
      show "main_calls s' \<le> portTEST_NUM_SAMPLES cfg * (2 * ?N)"
        using p by (simp add: mc)
    next
      fix w assume "w < ?N"
      from parts(2)[OF this]
      show "(iSamples_of s' w = main_calls s' div (2 * ?N)
              \<and> (if w \<in> set (take (main_calls s' mod (2 * ?N)) ?ord)
                  then (ulNotifiedValue s' w = 1 \<and> \<not> in_round s' w)
                       \<or> (ulNotifiedValue s' w = 0 \<and> in_round s' w)
                  else ulNotifiedValue s' w = 0 \<and> \<not> in_round s' w))
         \<or> (iSamples_of s' w = Suc (main_calls s' div (2 * ?N))
              \<and> w \<in> set (take (main_calls s' mod (2 * ?N)) ?ord)
              \<and> ulNotifiedValue s' w = 0 \<and> \<not> in_round s' w)"
        unfolding mc same
        by (auto simp: dm all_rel all_rel' split: if_splits)
    next
      show "uxSemaphoreCount s' + (main_calls s' mod (2 * ?N) - ?N)
              = card {w. w < ?N \<and> iSamples_of s' w = Suc (main_calls s' div (2 * ?N))}"
        unfolding mc sc same
        using parts(3) z sem by (simp add: dm)
    qed
  next
    case False
    then have wrap: "Suc ?z = 2 * ?N" using zlt by simp
    have dm: "Suc (main_calls s) div (2 * ?N) = Suc ?R" "Suc (main_calls s) mod (2 * ?N) = 0"
      using wrap by (simp_all add: Suc_div_mod_wrap)
    have sub: "?S \<subseteq> {0..<?N}" by auto
    have "?z - ?N = ?N - 1" using wrap by simp
    then have "uxSemaphoreCount s + (?N - 1) = card ?S"
      using parts(3) by simp
    moreover have "card ?S \<le> card {0..<?N}"
      by (rule card_mono) (simp, rule sub)
    moreover have "card {0..<?N} = ?N" by simp
    ultimately have one: "uxSemaphoreCount s = 1" and full: "card ?S = card {0..<?N}"
      using sem N by linarith+
    have eq: "?S = {0..<?N}"
      by (rule card_subset_eq) (simp, rule sub, rule full)
    have alldone: "iSamples_of s w = Suc ?R" if "w < ?N" for w
    proof -
      have "w \<in> {0..<?N}" using that by simp
      then have "w \<in> ?S" by (simp only: eq)
      then show ?thesis by simp
    qed
    have idle: "ulNotifiedValue s w = 0 \<and> \<not> in_round s w" if "w < ?N" for w
    proof -
      have "iSamples_of s w \<noteq> ?R" using alldone[OF that] by simp
      with parts(2)[OF that] show ?thesis by blast
    qed
    have empty: "{w. w < ?N \<and> iSamples_of s w = Suc (Suc ?R)} = {}"
    proof -
      have "\<not> (w < ?N \<and> iSamples_of s w = Suc (Suc ?R))" for w
        using alldone[of w] by auto
      then show ?thesis by blast
    qed
    show ?thesis
    proof (rule barrier_invI)
      show "main_calls s' \<le> portTEST_NUM_SAMPLES cfg * (2 * ?N)"
        using p by (simp add: mc)
    next
      fix w assume w: "w < ?N"
      show "(iSamples_of s' w = main_calls s' div (2 * ?N)
              \<and> (if w \<in> set (take (main_calls s' mod (2 * ?N)) ?ord)
                  then (ulNotifiedValue s' w = 1 \<and> \<not> in_round s' w)
                       \<or> (ulNotifiedValue s' w = 0 \<and> in_round s' w)
                  else ulNotifiedValue s' w = 0 \<and> \<not> in_round s' w))
         \<or> (iSamples_of s' w = Suc (main_calls s' div (2 * ?N))
              \<and> w \<in> set (take (main_calls s' mod (2 * ?N)) ?ord)
              \<and> ulNotifiedValue s' w = 0 \<and> \<not> in_round s' w)"
        unfolding mc same
        using alldone[OF w] idle[OF w] by (simp add: dm)
    next
      show "uxSemaphoreCount s' + (main_calls s' mod (2 * ?N) - ?N)
              = card {w. w < ?N \<and> iSamples_of s' w = Suc (main_calls s' div (2 * ?N))}"
        unfolding mc sc same
        using one by (simp add: dm empty)
    qed
  qed
qed

lemma barrier_inv_notify_take:
  assumes inv: "barrier_inv cfg c s"
    and w: "w < configNUMBER_OF_CORES cfg"
    and idle: "\<not> in_round s w"
    and nv: "0 < ulNotifiedValue s w"
    and nv': "ulNotifiedValue s' = (ulNotifiedValue s)(w := 0)"
    and ir': "in_round s' = (in_round s)(w := True)"
    and same: "main_calls s' = main_calls s" "uxSemaphoreCount s' = uxSemaphoreCount s"
      "iSamples_of s' = iSamples_of s"
  shows "barrier_inv cfg c s'"
proof (rule barrier_invI)
  note parts = barrier_inv_parts[OF inv]
  show "main_calls s' \<le> portTEST_NUM_SAMPLES cfg * (2 * configNUMBER_OF_CORES cfg)"
    using parts(1) by (simp add: same)
  show "uxSemaphoreCount s'
           + (main_calls s' mod (2 * configNUMBER_OF_CORES cfg) - configNUMBER_OF_CORES cfg)
         = card {w. w < configNUMBER_OF_CORES cfg
                    \<and> iSamples_of s' w = Suc (main_calls s' div (2 * configNUMBER_OF_CORES cfg))}"
    using parts(3) by (simp add: same)
  fix v assume v: "v < configNUMBER_OF_CORES cfg"
  show "(iSamples_of s' v = main_calls s' div (2 * configNUMBER_OF_CORES cfg)
              \<and> (if v \<in> set (take (main_calls s' mod (2 * configNUMBER_OF_CORES cfg)) (release_order cfg c))
                  then (ulNotifiedValue s' v = 1 \<and> \<not> in_round s' v)
                       \<or> (ulNotifiedValue s' v = 0 \<and> in_round s' v)
                  else ulNotifiedValue s' v = 0 \<and> \<not> in_round s' v))
         \<or> (iSamples_of s' v = Suc (main_calls s' div (2 * configNUMBER_OF_CORES cfg))
              \<and> v \<in> set (take (main_calls s' mod (2 * configNUMBER_OF_CORES cfg)) (release_order cfg c))
              \<and> ulNotifiedValue s' v = 0 \<and> \<not> in_round s' v)"
  proof (cases "v = w")
    case False
    then have e: "iSamples_of s' v = iSamples_of s v" "ulNotifiedValue s' v = ulNotifiedValue s v"
      "in_round s' v = in_round s v" "main_calls s' = main_calls s"
      by (simp_all add: same nv' ir')
    show ?thesis unfolding e by (rule parts(2)[OF v])
  next
    case True
    have old: "iSamples_of s w = main_calls s div (2 * configNUMBER_OF_CORES cfg)
        \<and> w \<in> set (take (main_calls s mod (2 * configNUMBER_OF_CORES cfg)) (release_order cfg c))"
      using parts(2)[OF w] idle nv
      by (cases "w \<in> set (take (main_calls s mod (2 * configNUMBER_OF_CORES cfg)) (release_order cfg c))")
         auto
    show ?thesis using True old by (simp add: same nv' ir')
  qed
qed

lemma barrier_inv_give:
  assumes inv: "barrier_inv cfg c s"
    and w: "w < configNUMBER_OF_CORES cfg"
    and run: "in_round s w"
    and sc: "uxSemaphoreCount s' =
                   (if uxSemaphoreCount s < configNUMBER_OF_CORES cfg
                    then Suc (uxSemaphoreCount s) else uxSemaphoreCount s)"
    and is': "iSamples_of s' = (iSamples_of s)(w := Suc (iSamples_of s w))"
    and ir': "in_round s' = (in_round s)(w := False)"
    and same: "main_calls s' = main_calls s" "ulNotifiedValue s' = ulNotifiedValue s"
  shows "barrier_inv cfg c s'"
proof -
  let ?N = "configNUMBER_OF_CORES cfg"
  let ?z = "main_calls s mod (2 * ?N)"
  let ?R = "main_calls s div (2 * ?N)"
  let ?S = "{v. v < ?N \<and> iSamples_of s v = Suc ?R}"
  let ?iS' = "(iSamples_of s)(w := Suc (iSamples_of s w))"
  let ?S' = "{v. v < ?N \<and> ?iS' v = Suc ?R}"
  note parts = barrier_inv_parts[OF inv]
  have old: "iSamples_of s w = ?R \<and> w \<in> set (take ?z (release_order cfg c)) \<and> ulNotifiedValue s w = 0"
    using parts(2)[OF w] run
    by (cases "w \<in> set (take ?z (release_order cfg c))") auto
  have fin: "finite ?S" by simp
  have notin: "w \<notin> ?S" using old by simp
  have S': "?S' = insert w ?S"
    using w old by auto
  have card': "card ?S' = Suc (card ?S)"
    by (simp only: S' card_insert_disjoint[OF fin notin])
  have "?S \<subseteq> {0..<?N} - {w}" using notin by auto
  then have "card ?S \<le> card ({0..<?N} - {w})" by (intro card_mono) simp_all
  also have "\<dots> = ?N - 1" using w by simp
  finally have "card ?S < ?N" using w by simp
  then have room: "uxSemaphoreCount s < ?N" using parts(3) by simp
  show ?thesis
  proof (rule barrier_invI)
    show "main_calls s' \<le> portTEST_NUM_SAMPLES cfg * (2 * ?N)"
      using parts(1) by (simp add: same)
  next
    show "uxSemaphoreCount s' + (main_calls s' mod (2 * ?N) - ?N)
         = card {v. v < ?N \<and> iSamples_of s' v = Suc (main_calls s' div (2 * ?N))}"
      unfolding is' same sc card' using room parts(3) by simp
  next
    fix v assume v: "v < ?N"
    show "(iSamples_of s' v = main_calls s' div (2 * ?N)
              \<and> (if v \<in> set (take (main_calls s' mod (2 * ?N)) (release_order cfg c))
                  then (ulNotifiedValue s' v = 1 \<and> \<not> in_round s' v)
                       \<or> (ulNotifiedValue s' v = 0 \<and> in_round s' v)
                  else ulNotifiedValue s' v = 0 \<and> \<not> in_round s' v))
         \<or> (iSamples_of s' v = Suc (main_calls s' div (2 * ?N))
              \<and> v \<in> set (take (main_calls s' mod (2 * ?N)) (release_order cfg c))
              \<and> ulNotifiedValue s' v = 0 \<and> \<not> in_round s' v)"
    proof (cases "v = w")
      case False
      then have e: "iSamples_of s' v = iSamples_of s v" "ulNotifiedValue s' v = ulNotifiedValue s v"
        "in_round s' v = in_round s v" "main_calls s' = main_calls s"
        by (simp_all add: same is' ir')
      show ?thesis unfolding e by (rule parts(2)[OF v])
    next
      case True
      then show ?thesis using old by (simp add: same is' ir')
    qed
  qed
qed

text \<open>Consequences of the barrier.\<close>

lemma barrier_round_bound:
  assumes c: "c < configNUMBER_OF_CORES cfg" and inv: "barrier_inv cfg c s"
    and w: "w < configNUMBER_OF_CORES cfg"
  shows "iSamples_of s w \<le> portTEST_NUM_SAMPLES cfg"
    and "main_calls s div (2 * configNUMBER_OF_CORES cfg) \<le> iSamples_of s w"
    and "iSamples_of s w \<le> Suc (main_calls s div (2 * configNUMBER_OF_CORES cfg))"
    and "in_round s w \<Longrightarrow> main_calls s < portTEST_NUM_SAMPLES cfg * (2 * configNUMBER_OF_CORES cfg)"
    and "in_round s w \<Longrightarrow> iSamples_of s w < portTEST_NUM_SAMPLES cfg"
proof -
  let ?N = "configNUMBER_OF_CORES cfg"
  let ?n = "portTEST_NUM_SAMPLES cfg"
  let ?z = "main_calls s mod (2 * ?N)"
  let ?R = "main_calls s div (2 * ?N)"
  note parts = barrier_inv_parts[OF inv]
  have N: "0 < ?N" using c by simp
  have R: "?R \<le> ?n"
  proof -
    have "?R \<le> (?n * (2 * ?N)) div (2 * ?N)" using parts(1) by (rule div_le_mono)
    then show ?thesis using N by simp
  qed
  have strict: "?R < ?n \<and> main_calls s < ?n * (2 * ?N)"
    if "w \<in> set (take ?z (release_order cfg c))"
  proof -
    have z: "0 < ?z"
    proof (rule ccontr)
      assume "\<not> 0 < ?z"
      then have "?z = 0" by simp
      with that show False by simp
    qed
    have ne: "main_calls s \<noteq> ?n * (2 * ?N)"
    proof
      assume "main_calls s = ?n * (2 * ?N)"
      then have "?z = 0" by simp
      with z show False by simp
    qed
    with parts(1) have lt: "main_calls s < ?n * (2 * ?N)" by simp
    then have "?R < ?n" using N by (simp add: div_less_iff_less_mult)
    with lt show ?thesis by simp
  qed
  show "iSamples_of s w \<le> ?n"
    using parts(2)[OF w] R strict by (auto split: if_splits)
  show "?R \<le> iSamples_of s w" "iSamples_of s w \<le> Suc ?R"
    using parts(2)[OF w] by auto
  show "main_calls s < ?n * (2 * ?N)" if "in_round s w"
    using parts(2)[OF w] that strict by (auto split: if_splits)
  show "iSamples_of s w < ?n" if "in_round s w"
    using parts(2)[OF w] that strict by (auto split: if_splits)
qed

lemma barrier_round_start:
  assumes inv: "barrier_inv cfg c s"
    and z: "main_calls s mod (2 * configNUMBER_OF_CORES cfg) = 0"
  shows "uxSemaphoreCount s = 0"
    and "\<And>w. w < configNUMBER_OF_CORES cfg \<Longrightarrow>
           iSamples_of s w = main_calls s div (2 * configNUMBER_OF_CORES cfg)
           \<and> ulNotifiedValue s w = 0 \<and> \<not> in_round s w"
proof -
  note parts = barrier_inv_parts[OF inv]
  show all: "iSamples_of s w = main_calls s div (2 * configNUMBER_OF_CORES cfg)
           \<and> ulNotifiedValue s w = 0 \<and> \<not> in_round s w" if "w < configNUMBER_OF_CORES cfg" for w
    using parts(2)[OF that] by (simp add: z)
  have "{w. w < configNUMBER_OF_CORES cfg
            \<and> iSamples_of s w = Suc (main_calls s div (2 * configNUMBER_OF_CORES cfg))} = {}"
    using all by auto
  then show "uxSemaphoreCount s = 0"
    using parts(3) by (simp add: z)
qed

subsection \<open>Every step keeps the barrier\<close>

lemma producer_sends_frame:
  assumes "for_loop ks (producer_send core) st = Inr st'"
  shows "xProducerTaskHandles st' = xProducerTaskHandles st \<and> main_trace st' = main_trace st
       \<and> stdout st' = stdout st"
  using assms
proof (induction ks arbitrary: st)
  case Nil
  then show ?case by simp
next
  case (Cons k ks)
  then obtain st1 where s1: "producer_send core k st = Inr st1"
    and rest: "for_loop ks (producer_send core) st1 = Inr st'"
    by (auto split: sum.splits)
  have "xProducerTaskHandles st1 = xProducerTaskHandles st \<and> main_trace st1 = main_trace st
       \<and> stdout st1 = stdout st"
    using s1 by (auto simp: producer_send_def Let_def log_producer_def split: sum.splits)
  with Cons.IH[OF rest] show ?case by simp
qed

lemma producer_work_frame:
  assumes "producer_work cfg clk core st = Inr st'"
  shows "xProducerTaskHandles st' = xProducerTaskHandles st \<and> main_trace st' = main_trace st
       \<and> stdout st' = stdout st"
proof -
  obtain st3 where sends: "for_loop [0..<portTEST_NUM_ITEMS cfg] (producer_send core)
                              (snd (portTEST_GET_TIME clk core st)) = Inr st3"
    using assms by (auto simp: producer_work_def Let_def split: sum.splits)
  have "xProducerTaskHandles st3 = xProducerTaskHandles st \<and> main_trace st3 = main_trace st
       \<and> stdout st3 = stdout st"
    using producer_sends_frame[OF sends] by (simp add: portTEST_GET_TIME_def Let_def log_producer_def)
  then show ?thesis
    using assms sends
    by (auto simp: producer_work_def Let_def portTEST_GET_TIME_def log_producer_def)
qed

lemma main_step_cases:
  assumes c: "c < configNUMBER_OF_CORES cfg"
    and b: "barrier_inv cfg c s" and t: "tasks_inv cfg c s"
    and step: "main_step cfg c s = Some s'"
  obtains
    (release) "main_calls s < portTEST_NUM_SAMPLES cfg * (2 * configNUMBER_OF_CORES cfg)"
      "main_calls s mod (2 * configNUMBER_OF_CORES cfg) < configNUMBER_OF_CORES cfg"
      "\<not> main_returned s"
      "s' = s\<lparr>shared := xTaskNotifyGive
                  (release_order cfg c ! (main_calls s mod (2 * configNUMBER_OF_CORES cfg))) (shared s),
              ulNotifiedValue := (ulNotifiedValue s)
                (release_order cfg c ! (main_calls s mod (2 * configNUMBER_OF_CORES cfg))
                   := Suc (ulNotifiedValue s
                        (release_order cfg c ! (main_calls s mod (2 * configNUMBER_OF_CORES cfg))))),
              main_calls := Suc (main_calls s)\<rparr>"
  | (take) "main_calls s < portTEST_NUM_SAMPLES cfg * (2 * configNUMBER_OF_CORES cfg)"
      "configNUMBER_OF_CORES cfg \<le> main_calls s mod (2 * configNUMBER_OF_CORES cfg)"
      "\<not> main_returned s" "0 < uxSemaphoreCount s"
      "s' = s\<lparr>shared := xSemaphoreTake (shared s),
              uxSemaphoreCount := uxSemaphoreCount s - 1,
              main_calls := Suc (main_calls s)\<rparr>"
  | (print) "main_calls s = portTEST_NUM_SAMPLES cfg * (2 * configNUMBER_OF_CORES cfg)"
      "\<not> main_returned s"
      "s' = s\<lparr>shared := print_results cfg (shared s), main_returned := True\<rparr>"
proof -
  let ?N = "configNUMBER_OF_CORES cfg"
  let ?L = "portTEST_NUM_SAMPLES cfg * (2 * ?N)"
  have h: "xProducerTaskHandles (shared s) = [0..<?N]"
    using t by (simp add: tasks_inv_def)
  have prog: "main_calls_of cfg c (shared s) = main_program cfg c"
    by (rule main_calls_of_eq[OF c h])
  have len: "length (main_program cfg c) = ?L"
    by (rule main_program_length[OF c])
  have nr: "\<not> main_returned s"
    using step by (auto simp: main_step_def split: if_splits)
  show thesis
  proof (cases "main_calls s < ?L")
    case False
    then have e: "main_calls s = ?L"
      using barrier_inv_parts(1)[OF b] by simp
    have "s' = s\<lparr>shared := print_results cfg (shared s), main_returned := True\<rparr>"
      using step nr e by (simp add: main_step_def prog len)
    from print[OF e nr this] show thesis .
  next
    case True
    note ev = main_program_nth[OF c True]
    show thesis
    proof (cases "main_calls s mod (2 * ?N) < ?N")
      case z: True
      have "s' = s\<lparr>shared := xTaskNotifyGive (release_order cfg c ! (main_calls s mod (2 * ?N))) (shared s),
              ulNotifiedValue := (ulNotifiedValue s)
                (release_order cfg c ! (main_calls s mod (2 * ?N))
                   := Suc (ulNotifiedValue s (release_order cfg c ! (main_calls s mod (2 * ?N))))),
              main_calls := Suc (main_calls s)\<rparr>"
        using step nr True z by (simp add: main_step_def prog len ev)
      from release[OF True z nr this] show thesis .
    next
      case z: False
      then have z': "?N \<le> main_calls s mod (2 * ?N)" by simp
      have sem: "0 < uxSemaphoreCount s"
        and "s' = s\<lparr>shared := xSemaphoreTake (shared s),
              uxSemaphoreCount := uxSemaphoreCount s - 1,
              main_calls := Suc (main_calls s)\<rparr>"
        using step nr True z by (simp_all add: main_step_def prog len ev split: if_splits)
      from take[OF True z' nr this] show thesis .
    qed
  qed
qed

lemma take_Suc_program:
  assumes "p < length xs" "tr = take p xs"
  shows "tr @ [xs ! p] = take (Suc p) xs"
  using assms by (simp add: take_Suc_conv_app_nth)

lemma main_step_inv:
  assumes c: "c < configNUMBER_OF_CORES cfg"
    and b: "barrier_inv cfg c s" and t: "tasks_inv cfg c s"
    and ab: "aborted s = None"
    and step: "main_step cfg c s = Some s'"
  shows "barrier_inv cfg c s' \<and> tasks_inv cfg c s'"
proof -
  let ?N = "configNUMBER_OF_CORES cfg"
  let ?z = "main_calls s mod (2 * ?N)"
  have len: "length (main_program cfg c) = portTEST_NUM_SAMPLES cfg * (2 * ?N)"
    by (rule main_program_length[OF c])
  have tr: "main_trace (shared s) = take (main_calls s) (main_program cfg c)"
    using t by (simp add: tasks_inv_def)
  from c b t step show ?thesis
  proof (cases rule: main_step_cases)
    case release
    have b': "barrier_inv cfg c s'"
      by (rule barrier_inv_release[OF c b release(2) release(1)])
         (simp_all add: release(4) in_round_other)
    have p: "main_calls s < length (main_program cfg c)" using release(1) by (simp add: len)
    have tr': "main_trace (shared s) @ [TaskNotifyGive (release_order cfg c ! ?z)]
                 = take (Suc (main_calls s)) (main_program cfg c)"
      using take_Suc_program[OF p tr] main_program_nth[OF c release(1)] release(2) by simp
    have "tasks_inv cfg c s'"
      using t release(3) ab tr'
      by (simp add: tasks_inv_def release(4) xTaskNotifyGive_def)
    with b' show ?thesis by simp
  next
    case take
    have b': "barrier_inv cfg c s'"
      by (rule barrier_inv_take[OF c b take(2) take(1) take(4)])
         (simp_all add: take(5) in_round_other)
    have p: "main_calls s < length (main_program cfg c)" using take(1) by (simp add: len)
    have tr': "main_trace (shared s) @ [SemaphoreTake]
                 = take (Suc (main_calls s)) (main_program cfg c)"
      using take_Suc_program[OF p tr] main_program_nth[OF c take(1)] take(2) by simp
    have "tasks_inv cfg c s'"
      using t take(3) ab tr'
      by (simp add: tasks_inv_def take(5) xSemaphoreTake_def)
    with b' show ?thesis by simp
  next
    case print
    have b': "barrier_inv cfg c s'"
      by (rule barrier_inv_same[OF b]) (simp_all add: print(3) in_round_other)
    have "tasks_inv cfg c s'"
      using t print(1) ab
      by (simp add: tasks_inv_def print(3) print_results_eq)
    with b' show ?thesis by simp
  qed
qed

lemma producer_step_cases:
  assumes step: "producer_step cfg clk w s = Some s'"
  obtains
    (notify_take) "producer_at s w = AtNotifyTake" "iSamples_of s w < portTEST_NUM_SAMPLES cfg"
      "0 < ulNotifiedValue s w"
      "s' = s\<lparr>shared := log_producer w NotifyTake (shared s),
              ulNotifiedValue := (ulNotifiedValue s)(w := 0),
              producer_at := (producer_at s)(w := AtWork)\<rparr>"
  | (suspend) "producer_at s w = AtNotifyTake" "portTEST_NUM_SAMPLES cfg \<le> iSamples_of s w"
      "s' = s\<lparr>shared := log_producer w TaskSuspend (shared s),
              producer_at := (producer_at s)(w := Suspended)\<rparr>"
  | (abort) e where "producer_at s w = AtWork" "producer_work cfg clk w (shared s) = Inl e"
      "s' = s\<lparr>aborted := Some e\<rparr>"
  | (work) st' where "producer_at s w = AtWork" "producer_work cfg clk w (shared s) = Inr st'"
      "s' = s\<lparr>shared := st', producer_at := (producer_at s)(w := AtGive)\<rparr>"
  | (give) "producer_at s w = AtGive"
      "s' = s\<lparr>shared := log_producer w SemaphoreGive (shared s),
              uxSemaphoreCount :=
                (if uxSemaphoreCount s < configNUMBER_OF_CORES cfg
                 then Suc (uxSemaphoreCount s) else uxSemaphoreCount s),
              iSamples_of := (iSamples_of s)(w := Suc (iSamples_of s w)),
              producer_at := (producer_at s)(w := AtNotifyTake)\<rparr>"
proof (cases "producer_at s w")
  case AtNotifyTake
  show thesis
  proof (cases "iSamples_of s w < portTEST_NUM_SAMPLES cfg")
    case True
    then have "0 < ulNotifiedValue s w"
      and "s' = s\<lparr>shared := log_producer w NotifyTake (shared s),
              ulNotifiedValue := (ulNotifiedValue s)(w := 0),
              producer_at := (producer_at s)(w := AtWork)\<rparr>"
      using step AtNotifyTake by (simp_all add: producer_step_def split: if_splits)
    from notify_take[OF AtNotifyTake True this] show thesis .
  next
    case False
    then have n: "portTEST_NUM_SAMPLES cfg \<le> iSamples_of s w" by simp
    have "s' = s\<lparr>shared := log_producer w TaskSuspend (shared s),
              producer_at := (producer_at s)(w := Suspended)\<rparr>"
      using step AtNotifyTake False by (simp add: producer_step_def)
    from suspend[OF AtNotifyTake n this] show thesis .
  qed
next
  case AtWork
  show thesis
  proof (cases "producer_work cfg clk w (shared s)")
    case (Inl e)
    then have "s' = s\<lparr>aborted := Some e\<rparr>"
      using step AtWork by (simp add: producer_step_def)
    from abort[OF AtWork Inl this] show thesis .
  next
    case (Inr st')
    then have "s' = s\<lparr>shared := st', producer_at := (producer_at s)(w := AtGive)\<rparr>"
      using step AtWork by (simp add: producer_step_def)
    from work[OF AtWork Inr this] show thesis .
  qed
next
  case AtGive
  then have "s' = s\<lparr>shared := log_producer w SemaphoreGive (shared s),
              uxSemaphoreCount :=
                (if uxSemaphoreCount s < configNUMBER_OF_CORES cfg
                 then Suc (uxSemaphoreCount s) else uxSemaphoreCount s),
              iSamples_of := (iSamples_of s)(w := Suc (iSamples_of s w)),
              producer_at := (producer_at s)(w := AtNotifyTake)\<rparr>"
    using step by (simp add: producer_step_def)
  from give[OF AtGive this] show thesis .
next
  case Suspended
  then show thesis using step by (simp add: producer_step_def)
qed

lemma producer_step_inv:
  assumes c: "c < configNUMBER_OF_CORES cfg"
    and b: "barrier_inv cfg c s" and t: "tasks_inv cfg c s"
    and ab: "aborted s = None"
    and w: "w < configNUMBER_OF_CORES cfg"
    and step: "producer_step cfg clk w s = Some s'"
  shows "barrier_inv cfg c s' \<and> tasks_inv cfg c s'"
  using step
proof (cases rule: producer_step_cases)
  case notify_take
  have idle: "\<not> in_round s w" using notify_take(1) by (simp add: in_round_def)
  have b': "barrier_inv cfg c s'"
    by (rule barrier_inv_notify_take[OF b w idle notify_take(3)])
       (simp_all add: notify_take(4) in_round_def fun_eq_iff)
  have "tasks_inv cfg c s'"
    using t ab by (simp add: tasks_inv_def notify_take(4) log_producer_def)
  with b' show ?thesis by simp
next
  case suspend
  have b': "barrier_inv cfg c s'"
    by (rule barrier_inv_same[OF b])
       (simp_all add: suspend(3) in_round_def fun_eq_iff suspend(1))
  have "iSamples_of s w = portTEST_NUM_SAMPLES cfg"
    using barrier_round_bound(1)[OF c b w] suspend(2) by simp
  then have "tasks_inv cfg c s'"
    using t ab by (simp add: tasks_inv_def suspend(3) log_producer_def)
  with b' show ?thesis by simp
next
  case (abort e)
  have b': "barrier_inv cfg c s'"
    by (rule barrier_inv_same[OF b]) (simp_all add: abort(3) in_round_other)
  have ir: "in_round s w" using abort(1) by (simp add: in_round_def)
  have "main_calls s < portTEST_NUM_SAMPLES cfg * (2 * configNUMBER_OF_CORES cfg)"
    by (rule barrier_round_bound(4)[OF c b w ir])
  then have "\<not> main_returned s" using t by (auto simp: tasks_inv_def)
  then have "tasks_inv cfg c s'"
    using t by (simp add: tasks_inv_def abort(3))
  with b' show ?thesis by simp
next
  case (work st')
  have b': "barrier_inv cfg c s'"
    by (rule barrier_inv_same[OF b])
       (simp_all add: work(3) in_round_def fun_eq_iff work(1))
  have "tasks_inv cfg c s'"
    using t ab producer_work_frame[OF work(2)]
    by (simp add: tasks_inv_def work(3))
  with b' show ?thesis by simp
next
  case give
  have ir: "in_round s w" using give(1) by (simp add: in_round_def)
  have b': "barrier_inv cfg c s'"
    by (rule barrier_inv_give[OF b w ir])
       (simp_all add: give(2) in_round_def fun_eq_iff)
  have "tasks_inv cfg c s'"
    using t ab by (simp add: tasks_inv_def give(2) log_producer_def)
  with b' show ?thesis by simp
qed

lemma system_step_inv:
  assumes c: "c < configNUMBER_OF_CORES cfg"
    and b: "barrier_inv cfg c s" and t: "tasks_inv cfg c s"
    and step: "system_step cfg clk c a s = Some s'"
  shows "barrier_inv cfg c s' \<and> tasks_inv cfg c s'"
proof -
  have ab: "aborted s = None"
    using step by (simp add: system_step_def split: option.splits)
  show ?thesis
  proof (cases a)
    case MainTask
    then have "main_step cfg c s = Some s'" using step ab by (simp add: system_step_def)
    from main_step_inv[OF c b t ab this] show ?thesis .
  next
    case (ProducerTask w)
    then have w: "w < configNUMBER_OF_CORES cfg" and "producer_step cfg clk w s = Some s'"
      using step ab by (simp_all add: system_step_def split: if_splits)
    from producer_step_inv[OF c b t ab w this(2)] show ?thesis .
  qed
qed


lemma tasks_inv_start:
  assumes "xProducerTaskHandles st0 = [0..<configNUMBER_OF_CORES cfg]"
    "main_trace st0 = []" "stdout st0 = []"
  shows "tasks_inv cfg c (system_start st0)"
  using assms by (simp add: tasks_inv_def system_start_def)

subsection \<open>Every step keeps the data of the producers\<close>

lemma producer_data_frame:
  assumes "producer_data cfg clk v k pc st"
    and "length (xQueueHandles st') = length (xQueueHandles st)"
    and "length (uxElapsedCumulative st') = length (uxElapsedCumulative st)"
    and "length (ccount_reads st') = length (ccount_reads st)"
    and "length (producer_trace st') = length (producer_trace st)"
    and "xQueueHandles st' ! v = xQueueHandles st ! v"
    and "uxElapsedCumulative st' ! v = uxElapsedCumulative st ! v"
    and "ccount_reads st' ! v = ccount_reads st ! v"
    and "producer_trace st' ! v = producer_trace st ! v"
  shows "producer_data cfg clk v k pc st'"
  using assms by (simp add: producer_data_def arrays_ok_def)

lemma producer_data_log_other:
  assumes "producer_data cfg clk v k pc st" "v \<noteq> w"
  shows "producer_data cfg clk v k pc (log_producer w e st)"
  using assms(1)
  by (rule producer_data_frame) (simp_all add: log_producer_def assms(2)[symmetric])

lemma producer_data_log_self:
  assumes d: "producer_data cfg clk w k pc st"
    and timed: "rounds_timed k' pc' = rounds_timed k pc"
    and tr: "rounds_trace cfg clk w 0 k' @ round_prefix cfg clk w k' pc'
               = rounds_trace cfg clk w 0 k @ round_prefix cfg clk w k pc @ [e]"
  shows "producer_data cfg clk w k' pc' (log_producer w e st)"
  using d by (simp add: producer_data_def arrays_ok_def log_producer_def timed tr)

lemma rounds_trace_Suc:
  "rounds_trace cfg clk w 0 (Suc k) =
     rounds_trace cfg clk w 0 k
     @ [NotifyTake, GetTime (clk w (2 * k))]
     @ map (\<lambda>i. QueueSend w (int i) pdTRUE) [0..<portTEST_NUM_ITEMS cfg]
     @ [GetTime (clk w (2 * k + 1)), QueueReset w, SemaphoreGive]"
  by (simp add: rounds_trace_def round_trace_def)

lemma producer_data_work:
  fixes st :: "'w::len word contention_state"
  assumes d: "producer_data cfg clk w k AtWork st"
  shows "\<exists>st'. producer_work cfg clk w st = Inr st'
           \<and> producer_data cfg clk w k AtGive st'
           \<and> (\<forall>v k' pc'. v \<noteq> w \<longrightarrow> producer_data cfg clk v k' pc' st \<longrightarrow> producer_data cfg clk v k' pc' st')"
proof -
  have ok: "arrays_ok w st" using d by (simp add: producer_data_def)
  have q: "xQueueHandles st ! w = \<lparr>uxLength = portTEST_NUM_ITEMS cfg, messages = []\<rparr>"
    using d by (simp add: producer_data_def)
  have room: "length (messages (xQueueHandles st ! w)) + portTEST_NUM_ITEMS cfg
                 \<le> uxLength (xQueueHandles st ! w)"
    by (simp add: q)
  have r: "ccount_reads st ! w = 2 * k"
    using d by (simp add: producer_data_def rounds_timed_def)
  note res = producer_work_ok[OF ok room, of clk]
  let ?st' = "st\<lparr>xQueueHandles := (xQueueHandles st)[w := (xQueueHandles st ! w)\<lparr>messages := []\<rparr>],
             uxElapsedCumulative := (uxElapsedCumulative st)
               [w := uxElapsedCumulative st ! w
                        + (clk w (Suc (ccount_reads st ! w)) - clk w (ccount_reads st ! w))],
             ccount_reads := (ccount_reads st)[w := ccount_reads st ! w + 2],
             producer_trace := (producer_trace st)
               [w := producer_trace st ! w
                        @ [GetTime (clk w (ccount_reads st ! w))]
                        @ map (\<lambda>k. QueueSend w (int k) pdTRUE) [0..<portTEST_NUM_ITEMS cfg]
                        @ [GetTime (clk w (Suc (ccount_reads st ! w))), QueueReset w]]\<rparr>"
  have self: "producer_data cfg clk w k AtGive ?st'"
    using d
    by (simp add: producer_data_def arrays_ok_def rounds_timed_def round_prefix_def r)
  have other: "producer_data cfg clk v k' pc' ?st'"
    if "v \<noteq> w" "producer_data cfg clk v k' pc' st" for v k' pc'
    using that(2) by (rule producer_data_frame) (simp_all add: that(1)[symmetric])
  from res self other show ?thesis by blast
qed

lemma average_lines_expected:
  fixes cum :: "'w::len word list"
  assumes "\<And>w. w < configNUMBER_OF_CORES cfg \<Longrightarrow>
             cum ! w = (\<Sum>i<portTEST_NUM_SAMPLES cfg. clk w (2 * i + 1) - clk w (2 * i))"
  shows "Printf ''Time taken to fill %d items, averaged over %d samples\<newline>''
           [ArgInt (int (portTEST_NUM_ITEMS cfg)), ArgInt (int (portTEST_NUM_SAMPLES cfg))]
         # average_lines cfg cum [0..<configNUMBER_OF_CORES cfg] = expected_output cfg clk"
  using assms by (simp add: expected_output_def average_lines_def)

lemma data_step_inv:
  fixes s :: "'w::len word system"
  assumes c: "c < configNUMBER_OF_CORES cfg"
    and b: "barrier_inv cfg c s" and t: "tasks_inv cfg c s" and d: "data_inv cfg clk s"
    and step: "system_step cfg clk c a s = Some s'"
  shows "data_inv cfg clk s'"
proof -
  let ?N = "configNUMBER_OF_CORES cfg"
  have ab: "aborted s = None" using d by (simp add: data_inv_def)
  have pd: "producer_data cfg clk v (iSamples_of s v) (producer_at s v) (shared s)" if "v < ?N" for v
    using d that by (simp add: data_inv_def)
  have out: "main_returned s \<Longrightarrow> stdout (shared s) = expected_output cfg clk"
    using d by (simp add: data_inv_def)
  show ?thesis
  proof (cases a)
    case MainTask
    then have ms: "main_step cfg c s = Some s'" using step ab by (simp add: system_step_def)
    from c b t ms show ?thesis
    proof (cases rule: main_step_cases)
      case release
      have "producer_data cfg clk v (iSamples_of s' v) (producer_at s' v) (shared s')" if "v < ?N" for v
        using pd[OF that] by (simp add: release(4) xTaskNotifyGive_def producer_data_def arrays_ok_def)
      then show ?thesis
        using ab release(3) by (simp add: data_inv_def release(4))
    next
      case take
      have "producer_data cfg clk v (iSamples_of s' v) (producer_at s' v) (shared s')" if "v < ?N" for v
        using pd[OF that] by (simp add: take(5) xSemaphoreTake_def producer_data_def arrays_ok_def)
      then show ?thesis
        using ab take(3) by (simp add: data_inv_def take(5))
    next
      case print
      have z: "main_calls s mod (2 * ?N) = 0" by (simp add: print(1))
      have R: "main_calls s div (2 * ?N) = portTEST_NUM_SAMPLES cfg" using c by (simp add: print(1))
      have cum: "uxElapsedCumulative (shared s) ! v
                   = (\<Sum>i<portTEST_NUM_SAMPLES cfg. clk v (2 * i + 1) - clk v (2 * i))"
        if v: "v < ?N" for v
      proof -
        have "iSamples_of s v = portTEST_NUM_SAMPLES cfg" "\<not> in_round s v"
          using barrier_round_start(2)[OF b z v] by (simp_all add: R)
        then have "rounds_timed (iSamples_of s v) (producer_at s v) = portTEST_NUM_SAMPLES cfg"
          by (simp add: rounds_timed_def in_round_def)
        with pd[OF v] show ?thesis by (simp add: producer_data_def)
      qed
      have empty: "stdout (shared s) = []"
        using t print(2) by (simp add: tasks_inv_def)
      have o': "stdout (shared s') = expected_output cfg clk"
        using average_lines_expected[of cfg "uxElapsedCumulative (shared s)" clk, OF cum]
        by (simp add: print(3) print_results_eq empty)
      have "producer_data cfg clk v (iSamples_of s' v) (producer_at s' v) (shared s')" if "v < ?N" for v
        using pd[OF that] by (simp add: print(3) print_results_eq producer_data_def arrays_ok_def)
      then show ?thesis
        using ab o' by (simp add: data_inv_def print(3))
    qed
  next
    case (ProducerTask w)
    then have w: "w < ?N" and ps: "producer_step cfg clk w s = Some s'"
      using step ab by (simp_all add: system_step_def split: if_splits)
    from ps show ?thesis
    proof (cases rule: producer_step_cases)
      case notify_take
      have self: "producer_data cfg clk w (iSamples_of s w) AtWork (log_producer w NotifyTake (shared s))"
        using pd[OF w]
        by (intro producer_data_log_self[where k="iSamples_of s w" and pc=AtNotifyTake])
           (simp_all add: notify_take(1) rounds_timed_def round_prefix_def)
      have "producer_data cfg clk v (iSamples_of s' v) (producer_at s' v) (shared s')" if "v < ?N" for v
      proof (cases "v = w")
        case True
        then show ?thesis using self by (simp add: notify_take(4))
      next
        case False
        then show ?thesis
          using producer_data_log_other[OF pd[OF that] False] by (simp add: notify_take(4))
      qed
      then show ?thesis
        using ab out by (simp add: data_inv_def notify_take(4) log_producer_def)
    next
      case suspend
      have self: "producer_data cfg clk w (iSamples_of s w) Suspended (log_producer w TaskSuspend (shared s))"
        using pd[OF w]
        by (intro producer_data_log_self[where k="iSamples_of s w" and pc=AtNotifyTake])
           (simp_all add: suspend(1) rounds_timed_def round_prefix_def)
      have "producer_data cfg clk v (iSamples_of s' v) (producer_at s' v) (shared s')" if "v < ?N" for v
      proof (cases "v = w")
        case True
        then show ?thesis using self by (simp add: suspend(3))
      next
        case False
        then show ?thesis
          using producer_data_log_other[OF pd[OF that] False] by (simp add: suspend(3))
      qed
      then show ?thesis
        using ab out by (simp add: data_inv_def suspend(3) log_producer_def)
    next
      case (abort e)
      have "producer_data cfg clk w (iSamples_of s w) AtWork (shared s)"
        using pd[OF w] by (simp add: abort(1))
      from producer_data_work[OF this] abort(2) show ?thesis by auto
    next
      case (work st')
      have dw: "producer_data cfg clk w (iSamples_of s w) AtWork (shared s)"
        using pd[OF w] by (simp add: work(1))
      from producer_data_work[OF dw] work(2)
      have self: "producer_data cfg clk w (iSamples_of s w) AtGive st'"
        and other: "\<And>v k' pc'. v \<noteq> w \<Longrightarrow> producer_data cfg clk v k' pc' (shared s)
                      \<Longrightarrow> producer_data cfg clk v k' pc' st'"
        by auto
      have "producer_data cfg clk v (iSamples_of s' v) (producer_at s' v) (shared s')" if "v < ?N" for v
      proof (cases "v = w")
        case True
        then show ?thesis using self by (simp add: work(3))
      next
        case False
        then show ?thesis
          using other[OF False pd[OF that]] by (simp add: work(3))
      qed
      then show ?thesis
        using ab out producer_work_frame[OF work(2)] by (simp add: data_inv_def work(3))
    next
      case give
      have self: "producer_data cfg clk w (Suc (iSamples_of s w)) AtNotifyTake
                    (log_producer w SemaphoreGive (shared s))"
        using pd[OF w]
        by (intro producer_data_log_self[where k="iSamples_of s w" and pc=AtGive])
           (simp_all add: give(1) rounds_timed_def round_prefix_def rounds_trace_Suc)
      have "producer_data cfg clk v (iSamples_of s' v) (producer_at s' v) (shared s')" if "v < ?N" for v
      proof (cases "v = w")
        case True
        then show ?thesis using self by (simp add: give(2))
      next
        case False
        then show ?thesis
          using producer_data_log_other[OF pd[OF that] False] by (simp add: give(2))
      qed
      then show ?thesis
        using ab out by (simp add: data_inv_def give(2) log_producer_def)
    qed
  qed
qed

lemma data_inv_start:
  assumes "0 < portTEST_NUM_ITEMS cfg"
  shows "data_inv cfg clk (system_start (initial_state cfg))"
  by (simp add: data_inv_def system_start_def producer_data_def arrays_ok_def initial_state_def
      rounds_timed_def round_prefix_def rounds_trace_def)

lemma run_system_data_inv:
  fixes s :: "'w::len word system"
  assumes c: "c < configNUMBER_OF_CORES cfg"
  shows "barrier_inv cfg c s \<Longrightarrow> tasks_inv cfg c s \<Longrightarrow> data_inv cfg clk s
           \<Longrightarrow> run_system cfg clk c sched s = Some s'
           \<Longrightarrow> barrier_inv cfg c s' \<and> tasks_inv cfg c s' \<and> data_inv cfg clk s'"
proof (induction sched arbitrary: s)
  case Nil
  then show ?case by simp
next
  case (Cons a sched)
  then obtain s1 where s1: "system_step cfg clk c a s = Some s1"
    and rest: "run_system cfg clk c sched s1 = Some s'"
    by (auto split: option.splits)
  note bt = system_step_inv[OF c Cons.prems(1,2) s1]
  note d1 = data_step_inv[OF c Cons.prems(1,2,3) s1]
  from Cons.IH[OF _ _ d1 rest] bt show ?case by blast
qed

text \<open>The state of every run of the test case.\<close>

lemma test_case_inv:
  fixes s :: "'w::len word system"
  assumes c: "c < configNUMBER_OF_CORES cfg"
    and run: "TEST_CASE_QueueContention cfg clk c sched = Inr (Some s)"
  shows "barrier_inv cfg c s" "tasks_inv cfg c s" "data_inv cfg clk s"
proof -
  have N: "0 < configNUMBER_OF_CORES cfg" using c by simp
  obtain st0 :: "'w word contention_state" where su: "setup_idf cfg = Inr st0"
    and r: "run_system cfg clk c sched (system_start st0) = Some s"
    using run by (auto simp: TEST_CASE_QueueContention_def split: sum.splits)
  note s0 = setup_idf_Inr[OF su N]
  have t0: "tasks_inv cfg c (system_start st0)"
    by (rule tasks_inv_start) (simp_all add: s0(2) initial_state_def)
  have d0: "data_inv cfg clk (system_start st0)"
    unfolding s0(2) by (rule data_inv_start[OF s0(1)])
  from run_system_data_inv[OF c barrier_inv_start t0 d0 r]
  show "barrier_inv cfg c s" "tasks_inv cfg c s" "data_inv cfg clk s" by simp_all
qed

subsection \<open>Every run can be continued until the main task returns\<close>

lemma system_progress:
  fixes s :: "'w::len word system"
  assumes c: "c < configNUMBER_OF_CORES cfg"
    and b: "barrier_inv cfg c s" and t: "tasks_inv cfg c s"
    and ab: "aborted s = None" and nr: "\<not> main_returned s"
  shows "\<exists>a s'. system_step cfg clk c a s = Some s'"
proof -
  let ?N = "configNUMBER_OF_CORES cfg"
  let ?n = "portTEST_NUM_SAMPLES cfg"
  let ?L = "?n * (2 * ?N)"
  let ?z = "main_calls s mod (2 * ?N)"
  let ?R = "main_calls s div (2 * ?N)"
  let ?S = "{w. w < ?N \<and> iSamples_of s w = Suc ?R}"
  note parts = barrier_inv_parts[OF b]
  note ro = release_order_props[OF c]
  have N: "0 < ?N" using c by simp
  have h: "xProducerTaskHandles (shared s) = [0..<?N]"
    using t by (simp add: tasks_inv_def)
  have prog: "main_calls_of cfg c (shared s) = main_program cfg c"
    by (rule main_calls_of_eq[OF c h])
  have len: "length (main_program cfg c) = ?L"
    by (rule main_program_length[OF c])
  have main: "system_step cfg clk c MainTask s = main_step cfg c s"
    by (simp add: system_step_def ab)
  have prod: "system_step cfg clk c (ProducerTask w) s = producer_step cfg clk w s" if "w < ?N" for w
    using that by (simp add: system_step_def ab)
  show ?thesis
  proof (cases "main_calls s < ?L")
    case False
    then have "main_step cfg c s = Some (s\<lparr>shared := print_results cfg (shared s), main_returned := True\<rparr>)"
      using nr by (simp add: main_step_def prog len)
    with main show ?thesis by metis
  next
    case True
    note ev = main_program_nth[OF c True]
    show ?thesis
    proof (cases "?z < ?N")
      case z: True
      have "\<exists>s'. main_step cfg c s = Some s'"
        using nr True z by (simp add: main_step_def prog len ev)
      with main show ?thesis by metis
    next
      case z: False
      show ?thesis
      proof (cases "0 < uxSemaphoreCount s")
        case sem: True
        have "\<exists>s'. main_step cfg c s = Some s'"
          using nr True z sem by (simp add: main_step_def prog len ev)
        with main show ?thesis by metis
      next
        case sem: False
        have zlt: "?z < 2 * ?N" using N by simp
        have "card ?S = ?z - ?N" using parts(3) sem by simp
        then have less: "card ?S < card {0..<?N}" using zlt z by simp
        have "\<exists>w. w < ?N \<and> iSamples_of s w \<noteq> Suc ?R"
        proof (rule ccontr)
          assume "\<not> (\<exists>w. w < ?N \<and> iSamples_of s w \<noteq> Suc ?R)"
          then have "?S = {0..<?N}" by auto
          with less show False by simp
        qed
        then obtain w where w: "w < ?N" and notdone: "iSamples_of s w \<noteq> Suc ?R" by blast
        have rel: "w \<in> set (take ?z (release_order cfg c))"
          using z ro(1,3) w by simp
        from parts(2)[OF w] notdone rel
        have R: "iSamples_of s w = ?R"
          and st: "(ulNotifiedValue s w = 1 \<and> \<not> in_round s w) \<or> (ulNotifiedValue s w = 0 \<and> in_round s w)"
          by auto
        have Rn: "?R < ?n" using True N by (simp add: div_less_iff_less_mult)
        have "\<exists>s'. producer_step cfg clk w s = Some s'"
        proof (cases "producer_at s w")
          case AtNotifyTake
          then show ?thesis
            using st R Rn by (simp add: producer_step_def in_round_def)
        next
          case AtWork
          then show ?thesis
            by (simp add: producer_step_def split: sum.splits)
        next
          case AtGive
          then show ?thesis by (simp add: producer_step_def)
        next
          case Suspended
          then have "iSamples_of s w = ?n" using t w by (simp add: tasks_inv_def)
          with R Rn show ?thesis by simp
        qed
        with prod[OF w] show ?thesis by metis
      qed
    qed
  qed
qed

lemma sum_one_more:
  fixes f g :: "nat \<Rightarrow> nat"
  assumes "w < N" "g w = Suc (f w)" "\<And>v. v \<noteq> w \<Longrightarrow> g v = f v"
  shows "(\<Sum>v<N. g v) = Suc (\<Sum>v<N. f v)"
proof -
  have w: "w \<in> {..<N}" using assms(1) by simp
  have "(\<Sum>v<N. g v) = g w + sum g ({..<N} - {w})"
    by (rule sum.remove[OF _ w]) simp
  moreover have "(\<Sum>v<N. f v) = f w + sum f ({..<N} - {w})"
    by (rule sum.remove[OF _ w]) simp
  moreover have "sum g ({..<N} - {w}) = sum f ({..<N} - {w})"
    by (rule sum.cong) (simp_all add: assms(3))
  ultimately show ?thesis by (simp add: assms(2))
qed

lemma steps_done_step:
  fixes s :: "'w::len word system"
  assumes c: "c < configNUMBER_OF_CORES cfg"
    and b: "barrier_inv cfg c s" and t: "tasks_inv cfg c s"
    and step: "system_step cfg clk c a s = Some s'"
    and ab': "aborted s' = None"
  shows "steps_done cfg s' = Suc (steps_done cfg s)"
proof -
  have ab: "aborted s = None"
    using step by (simp add: system_step_def split: option.splits)
  show ?thesis
  proof (cases a)
    case MainTask
    then have ms: "main_step cfg c s = Some s'" using step ab by (simp add: system_step_def)
    from c b t ms show ?thesis
      by (cases rule: main_step_cases) (simp_all add: steps_done_def producer_steps_def)
  next
    case (ProducerTask w)
    then have w: "w < configNUMBER_OF_CORES cfg" and ps: "producer_step cfg clk w s = Some s'"
      using step ab by (simp_all add: system_step_def split: if_splits)
    have "(\<Sum>v<configNUMBER_OF_CORES cfg. producer_steps s' v)
            = Suc (\<Sum>v<configNUMBER_OF_CORES cfg. producer_steps s v)
          \<and> main_calls s' = main_calls s \<and> main_returned s' = main_returned s"
      using ps
    proof (cases rule: producer_step_cases)
      case notify_take
      have "(\<Sum>v<configNUMBER_OF_CORES cfg. producer_steps s' v)
            = Suc (\<Sum>v<configNUMBER_OF_CORES cfg. producer_steps s v)"
        by (rule sum_one_more[OF w]) (simp_all add: producer_steps_def notify_take(1,4))
      then show ?thesis by (simp add: notify_take(4))
    next
      case suspend
      have "(\<Sum>v<configNUMBER_OF_CORES cfg. producer_steps s' v)
            = Suc (\<Sum>v<configNUMBER_OF_CORES cfg. producer_steps s v)"
        by (rule sum_one_more[OF w]) (simp_all add: producer_steps_def suspend(1,3))
      then show ?thesis by (simp add: suspend(3))
    next
      case (abort e)
      then show ?thesis using ab' by simp
    next
      case (work st')
      have "(\<Sum>v<configNUMBER_OF_CORES cfg. producer_steps s' v)
            = Suc (\<Sum>v<configNUMBER_OF_CORES cfg. producer_steps s v)"
        by (rule sum_one_more[OF w]) (simp_all add: producer_steps_def work(1,3))
      then show ?thesis by (simp add: work(3))
    next
      case give
      have "(\<Sum>v<configNUMBER_OF_CORES cfg. producer_steps s' v)
            = Suc (\<Sum>v<configNUMBER_OF_CORES cfg. producer_steps s v)"
        by (rule sum_one_more[OF w]) (simp_all add: producer_steps_def give(1,2))
      then show ?thesis by (simp add: give(2))
    qed
    then show ?thesis by (simp add: steps_done_def)
  qed
qed

lemma steps_done_bound:
  assumes c: "c < configNUMBER_OF_CORES cfg"
    and b: "barrier_inv cfg c s" and t: "tasks_inv cfg c s"
  shows "steps_done cfg s
           \<le> portTEST_NUM_SAMPLES cfg * (2 * configNUMBER_OF_CORES cfg) + 1
              + configNUMBER_OF_CORES cfg * (3 * portTEST_NUM_SAMPLES cfg + 1)"
proof -
  let ?N = "configNUMBER_OF_CORES cfg"
  let ?n = "portTEST_NUM_SAMPLES cfg"
  have each: "producer_steps s w \<le> 3 * ?n + 1" if w: "w < ?N" for w
  proof (cases "producer_at s w")
    case AtNotifyTake
    then show ?thesis using barrier_round_bound(1)[OF c b w] by (simp add: producer_steps_def)
  next
    case AtWork
    then have "in_round s w" by (simp add: in_round_def)
    from barrier_round_bound(5)[OF c b w this] AtWork show ?thesis by (simp add: producer_steps_def)
  next
    case AtGive
    then have "in_round s w" by (simp add: in_round_def)
    from barrier_round_bound(5)[OF c b w this] AtGive show ?thesis by (simp add: producer_steps_def)
  next
    case Suspended
    then show ?thesis using barrier_round_bound(1)[OF c b w] by (simp add: producer_steps_def)
  qed
  have "(\<Sum>w<?N. producer_steps s w) \<le> (\<Sum>w<?N. 3 * ?n + 1)"
    by (rule sum_mono) (use each in simp)
  then have "(\<Sum>w<?N. producer_steps s w) \<le> ?N * (3 * ?n + 1)" by simp
  moreover have "(if main_returned s then 1 else 0) \<le> (1::nat)" by simp
  ultimately show ?thesis
    unfolding steps_done_def
    by (intro add_mono barrier_inv_parts(1)[OF b])
qed

lemma complete_run_exists:
  fixes s :: "'w::len word system"
  assumes c: "c < configNUMBER_OF_CORES cfg"
  shows "barrier_inv cfg c s \<Longrightarrow> tasks_inv cfg c s \<Longrightarrow> data_inv cfg clk s
           \<Longrightarrow> \<exists>sched s'. run_system cfg clk c sched s = Some s' \<and> main_returned s'"
proof (induction "portTEST_NUM_SAMPLES cfg * (2 * configNUMBER_OF_CORES cfg) + 1
              + configNUMBER_OF_CORES cfg * (3 * portTEST_NUM_SAMPLES cfg + 1) - steps_done cfg s"
       arbitrary: s rule: less_induct)
  case less
  show ?case
  proof (cases "main_returned s")
    case True
    then have "run_system cfg clk c [] s = Some s \<and> main_returned s" by simp
    then show ?thesis by blast
  next
    case False
    have ab: "aborted s = None" using less.prems(3) by (simp add: data_inv_def)
    obtain a s1 where s1: "system_step cfg clk c a s = Some s1"
      using system_progress[OF c less.prems(1,2) ab False, of clk] by blast
    note bt = system_step_inv[OF c less.prems(1,2) s1]
    note d1 = data_step_inv[OF c less.prems(1,2,3) s1]
    have ab1: "aborted s1 = None" using d1 by (simp add: data_inv_def)
    have up: "steps_done cfg s1 = Suc (steps_done cfg s)"
      by (rule steps_done_step[OF c less.prems(1,2) s1 ab1])
    have bound: "steps_done cfg s1
           \<le> portTEST_NUM_SAMPLES cfg * (2 * configNUMBER_OF_CORES cfg) + 1
              + configNUMBER_OF_CORES cfg * (3 * portTEST_NUM_SAMPLES cfg + 1)"
      using steps_done_bound[OF c] bt by blast
    have "\<exists>sched s'. run_system cfg clk c sched s1 = Some s' \<and> main_returned s'"
      using bt d1 by (intro less.hyps) (use up bound in simp_all)
    then obtain sched s' where "run_system cfg clk c sched s1 = Some s'" "main_returned s'" by blast
    then have "run_system cfg clk c (a # sched) s = Some s' \<and> main_returned s'"
      by (simp add: s1)
    then show ?thesis by blast
  qed
qed

lemma test_case_completes:
  fixes clk :: "nat \<Rightarrow> nat \<Rightarrow> 'w::len word"
  assumes c: "c < configNUMBER_OF_CORES cfg" and items: "0 < portTEST_NUM_ITEMS cfg"
  shows "\<exists>sched s. TEST_CASE_QueueContention cfg clk c sched = Inr (Some s) \<and> main_returned s"
proof -
  have N: "0 < configNUMBER_OF_CORES cfg" using c by simp
  have su: "setup_idf cfg = Inr (initial_state cfg :: 'w word contention_state)"
    by (rule setup_idf_ok[OF N items])
  have t0: "tasks_inv cfg c (system_start (initial_state cfg :: 'w word contention_state))"
    by (rule tasks_inv_start) (simp_all add: initial_state_def)
  have d0: "data_inv cfg clk (system_start (initial_state cfg))"
    by (rule data_inv_start[OF items])
  from complete_run_exists[OF c barrier_inv_start t0 d0]
  show ?thesis
    by (simp add: TEST_CASE_QueueContention_def su)
qed

subsection \<open>Counting releases, completions and takes\<close>

lemma count_list_replicate_same: "count_list (replicate m x) x = m"
  by (induction m) simp_all

lemma count_list_concat_replicate:
  "count_list (concat (replicate k xs)) a = k * count_list xs a"
  by (induction k) simp_all

lemma take_concat_replicate:
  assumes "xs \<noteq> []"
  shows "p \<le> k * length xs \<Longrightarrow>
     take p (concat (replicate k xs)) = concat (replicate (p div length xs) xs) @ take (p mod length xs) xs"
proof (induction k arbitrary: p)
  case 0
  then show ?case by simp
next
  case (Suc k)
  have L: "0 < length xs" using assms by simp
  show ?case
  proof (cases "p < length xs")
    case True
    then show ?thesis by simp
  next
    case False
    then have ge: "length xs \<le> p" by simp
    have le: "p - length xs \<le> k * length xs" using Suc.prems by simp
    have d: "p div length xs = Suc ((p - length xs) div length xs)"
      using ge L by (simp add: le_div_geq)
    have m: "p mod length xs = (p - length xs) mod length xs"
      using ge by (simp add: le_mod_geq)
    show ?thesis
      using ge by (simp add: Suc.IH[OF le] d m)
  qed
qed

lemma takes_in_trace:
  assumes c: "c < configNUMBER_OF_CORES cfg"
    and p: "p \<le> portTEST_NUM_SAMPLES cfg * (2 * configNUMBER_OF_CORES cfg)"
  shows "count_list (take p (main_program cfg c)) SemaphoreTake
           = configNUMBER_OF_CORES cfg * (p div (2 * configNUMBER_OF_CORES cfg))
             + (p mod (2 * configNUMBER_OF_CORES cfg) - configNUMBER_OF_CORES cfg)"
proof -
  let ?N = "configNUMBER_OF_CORES cfg"
  let ?ord = "release_order cfg c"
  let ?blk = "map TaskNotifyGive ?ord @ replicate ?N SemaphoreTake"
  have N: "0 < ?N" using c by simp
  have len: "length ?blk = 2 * ?N" by (simp add: release_order_props(1)[OF c])
  have ne: "?blk \<noteq> []" using N len by auto
  have zlt: "p mod (2 * ?N) < 2 * ?N" using N by simp
  have none: "count_list (map TaskNotifyGive xs) SemaphoreTake = 0" for xs
    by (induction xs) simp_all
  have whole: "count_list ?blk SemaphoreTake = ?N"
    by (simp add: none count_list_replicate_same)
  have part: "count_list (take z ?blk) SemaphoreTake = z - ?N" if "z < 2 * ?N" for z
  proof -
    have "take z ?blk = take z (map TaskNotifyGive ?ord) @ replicate (min (z - ?N) ?N) SemaphoreTake"
      by (simp add: release_order_props(1)[OF c])
    moreover have "count_list (take z (map TaskNotifyGive ?ord)) SemaphoreTake = 0"
      by (simp add: take_map none)
    moreover have "min (z - ?N) ?N = z - ?N" using that by simp
    ultimately show ?thesis by (simp add: count_list_replicate_same)
  qed
  have eq: "take p (main_program cfg c)
          = concat (replicate (p div (2 * ?N)) ?blk) @ take (p mod (2 * ?N)) ?blk"
    using take_concat_replicate[OF ne, of p "portTEST_NUM_SAMPLES cfg"] p
    by (simp only: main_program_def len)
  have "count_list (take p (main_program cfg c)) SemaphoreTake
          = count_list (concat (replicate (p div (2 * ?N)) ?blk)) SemaphoreTake
            + count_list (take (p mod (2 * ?N)) ?blk) SemaphoreTake"
    by (simp only: eq count_list_append)
  also have "\<dots> = p div (2 * ?N) * ?N + (p mod (2 * ?N) - ?N)"
    by (simp only: count_list_concat_replicate whole part[OF zlt])
  finally show ?thesis by (simp add: mult.commute)
qed

lemma gives_in_trace:
  "count_list (rounds_trace cfg clk w 0 k) SemaphoreGive = k"
  "count_list (round_prefix cfg clk w k pc) SemaphoreGive = 0"
proof -
  have none: "count_list (map (\<lambda>i. QueueSend w (int i) pdTRUE) xs) SemaphoreGive = 0" for xs
    by (induction xs) simp_all
  show "count_list (rounds_trace cfg clk w 0 k) SemaphoreGive = k"
    by (induction k) (simp_all add: rounds_trace_Suc none, simp add: rounds_trace_def)
  show "count_list (round_prefix cfg clk w k pc) SemaphoreGive = 0"
    by (cases pc) (simp_all add: round_prefix_def none)
qed

lemma sum_rounds:
  fixes f :: "nat \<Rightarrow> nat"
  assumes "\<And>w. w < N \<Longrightarrow> f w = R \<or> f w = Suc R"
  shows "(\<Sum>w<N. f w) = N * R + card {w. w < N \<and> f w = Suc R}"
proof -
  have "(\<Sum>w<N. f w) = (\<Sum>w<N. R + (if f w = Suc R then 1 else 0))"
    by (rule sum.cong) (use assms in auto)
  also have "\<dots> = N * R + (\<Sum>w<N. if f w = Suc R then 1 else 0)"
    by (simp add: sum.distrib)
  also have "(\<Sum>w<N. if f w = Suc R then 1 else 0) = (\<Sum>w\<in>{w \<in> {..<N}. f w = Suc R}. 1)"
    by (rule sum.inter_filter[symmetric]) simp
  also have "\<dots> = card {w. w < N \<and> f w = Suc R}"
    by simp
  finally show ?thesis .
qed

lemma completions_consumed:
  fixes s :: "'w::len word system"
  assumes c: "c < configNUMBER_OF_CORES cfg"
    and b: "barrier_inv cfg c s" and t: "tasks_inv cfg c s" and d: "data_inv cfg clk s"
  shows "uxSemaphoreCount s + count_list (main_trace (shared s)) SemaphoreTake
           = (\<Sum>w<configNUMBER_OF_CORES cfg. count_list (producer_trace (shared s) ! w) SemaphoreGive)"
    and "\<And>w. w < configNUMBER_OF_CORES cfg \<Longrightarrow>
           count_list (producer_trace (shared s) ! w) SemaphoreGive = iSamples_of s w"
proof -
  let ?N = "configNUMBER_OF_CORES cfg"
  let ?R = "main_calls s div (2 * ?N)"
  let ?z = "main_calls s mod (2 * ?N)"
  note parts = barrier_inv_parts[OF b]
  show g: "count_list (producer_trace (shared s) ! w) SemaphoreGive = iSamples_of s w"
    if "w < ?N" for w
  proof -
    have "producer_trace (shared s) ! w
            = rounds_trace cfg clk w 0 (iSamples_of s w)
              @ round_prefix cfg clk w (iSamples_of s w) (producer_at s w)"
      using d that by (simp add: data_inv_def producer_data_def)
    then show ?thesis by (simp add: gives_in_trace)
  qed
  have tr: "main_trace (shared s) = take (main_calls s) (main_program cfg c)"
    using t by (simp add: tasks_inv_def)
  have takes: "count_list (main_trace (shared s)) SemaphoreTake = ?N * ?R + (?z - ?N)"
    unfolding tr by (rule takes_in_trace[OF c parts(1)])
  have "(\<Sum>w<?N. iSamples_of s w) = ?N * ?R + card {w. w < ?N \<and> iSamples_of s w = Suc ?R}"
    by (rule sum_rounds) (use parts(2) in blast)
  then have "(\<Sum>w<?N. iSamples_of s w) = ?N * ?R + (uxSemaphoreCount s + (?z - ?N))"
    by (simp only: parts(3))
  moreover have "(\<Sum>w<?N. count_list (producer_trace (shared s) ! w) SemaphoreGive)
                   = (\<Sum>w<?N. iSamples_of s w)"
    by (rule sum.cong) (simp_all add: g)
  ultimately show "uxSemaphoreCount s + count_list (main_trace (shared s)) SemaphoreTake
           = (\<Sum>w<?N. count_list (producer_trace (shared s) ! w) SemaphoreGive)"
    by (simp add: takes)
qed

subsection \<open>Readings that never decrease\<close>

text \<open>
  When the readings \<open>f 0, \<dots>, f (K - 1)\<close> of one counter never decrease, samples taken
  over stretches of it that do not overlap add up to at most the last reading minus the
  first: their sum fits the word.
\<close>

lemma readings_monotone:
  fixes f :: "nat \<Rightarrow> 'w::len word"
  assumes adj: "\<And>j. Suc j < K \<Longrightarrow> f j \<le> f (Suc j)"
  shows "i \<le> j \<Longrightarrow> j < K \<Longrightarrow> f i \<le> f j"
proof (induction j)
  case 0
  then show ?case by simp
next
  case (Suc j)
  show ?case
  proof (cases "i = Suc j")
    case True
    then show ?thesis by simp
  next
    case False
    then have "i \<le> j" "j < K" using Suc.prems by simp_all
    from Suc.IH[OF this] adj[OF Suc.prems(2)] show ?thesis by (rule order_trans)
  qed
qed

lemma disjoint_samples_fit:
  fixes f :: "nat \<Rightarrow> 'w::len word"
  assumes adj: "\<And>j. Suc j < K \<Longrightarrow> f j \<le> f (Suc j)"
    and ab: "\<And>i. i < n \<Longrightarrow> a i \<le> b i \<and> b i < K"
    and nxt: "\<And>i. Suc i < n \<Longrightarrow> b i \<le> a (Suc i)"
  shows "true_sum n (\<lambda>i. f (b i) - f (a i)) < 2 ^ LENGTH('w)"
proof -
  note mono = readings_monotone[of K f, OF adj]
  have step: "Suc m \<le> n \<Longrightarrow>
          true_sum (Suc m) (\<lambda>i. f (b i) - f (a i)) + unat (f (a 0)) \<le> unat (f (b m))" for m
  proof (induction m)
    case 0
    have "f (a 0) \<le> f (b 0)" using ab[of 0] 0 by (intro mono) simp_all
    then show ?case by (simp add: true_sum_def unat_sub word_le_nat_alt)
  next
    case (Suc m)
    have m: "Suc m < n" using Suc.prems by simp
    have le1: "f (a (Suc m)) \<le> f (b (Suc m))" using ab[OF m] by (intro mono) simp_all
    have le2: "f (b m) \<le> f (a (Suc m))"
      using nxt[OF m] ab[OF m] by (intro mono) simp_all
    have s: "unat (f (b (Suc m)) - f (a (Suc m))) = unat (f (b (Suc m))) - unat (f (a (Suc m)))"
      using le1 by (simp add: unat_sub)
    have "true_sum (Suc (Suc m)) (\<lambda>i. f (b i) - f (a i))
            = true_sum (Suc m) (\<lambda>i. f (b i) - f (a i)) + unat (f (b (Suc m)) - f (a (Suc m)))"
      by (simp add: true_sum_def)
    moreover have "true_sum (Suc m) (\<lambda>i. f (b i) - f (a i)) + unat (f (a 0)) \<le> unat (f (b m))"
      using Suc.IH m by simp
    moreover have "unat (f (b m)) \<le> unat (f (a (Suc m)))" using le2 by (simp add: word_le_nat_alt)
    moreover have "unat (f (a (Suc m))) \<le> unat (f (b (Suc m)))" using le1 by (simp add: word_le_nat_alt)
    ultimately show ?case using s by linarith
  qed
  show ?thesis
  proof (cases n)
    case 0
    then show ?thesis by (simp add: true_sum_def)
  next
    case (Suc m)
    have "true_sum n (\<lambda>i. f (b i) - f (a i)) \<le> unat (f (b m))"
      using step[of m] Suc by simp
    also have "\<dots> < 2 ^ LENGTH('w)" by (rule unsigned_less)
    finally show ?thesis .
  qed
qed

subsection \<open>What an aborted run reports\<close>




lemma run_system_append:
  "run_system cfg clk c (xs @ ys) s =
     (case run_system cfg clk c xs s of None \<Rightarrow> None | Some s' \<Rightarrow> run_system cfg clk c ys s')"
  by (induction xs arbitrary: s) (simp_all split: option.splits)


subsection \<open>Runs that abort\<close>



subsection \<open>The accumulators of a run that has returned\<close>

lemma returned_run_fields:
  fixes s :: "'w::len word system"
  assumes c: "xCoreID < configNUMBER_OF_CORES cfg" and core: "core < configNUMBER_OF_CORES cfg"
    and run: "TEST_CASE_QueueContention cfg clk xCoreID sched = Inr (Some s)"
    and ret: "main_returned s"
  shows "uxElapsedCumulative (shared s) ! core
           = (\<Sum>i<portTEST_NUM_SAMPLES cfg. clk core (2 * i + 1) - clk core (2 * i))"
    and "stdout (shared s) ! Suc core =
           Printf ''Core %d: %d\<newline>''
             [ArgInt (int core),
              ArgUBase ((\<Sum>i<portTEST_NUM_SAMPLES cfg. clk core (2 * i + 1) - clk core (2 * i))
                        div of_nat (portTEST_NUM_SAMPLES cfg))]"
proof -
  let ?N = "configNUMBER_OF_CORES cfg"
  note inv = test_case_inv[OF c run]
  have mc: "main_calls s = portTEST_NUM_SAMPLES cfg * (2 * ?N)"
    using inv(2) ret by (simp add: tasks_inv_def)
  have z: "main_calls s mod (2 * ?N) = 0" by (simp add: mc)
  have R: "main_calls s div (2 * ?N) = portTEST_NUM_SAMPLES cfg" using c by (simp add: mc)
  have "iSamples_of s core = portTEST_NUM_SAMPLES cfg" "\<not> in_round s core"
    using barrier_round_start(2)[OF inv(1) z core] by (simp_all add: R)
  then have timed: "rounds_timed (iSamples_of s core) (producer_at s core) = portTEST_NUM_SAMPLES cfg"
    by (simp add: rounds_timed_def in_round_def)
  have "producer_data cfg clk core (iSamples_of s core) (producer_at s core) (shared s)"
    using inv(3) core by (simp add: data_inv_def)
  then show "uxElapsedCumulative (shared s) ! core
           = (\<Sum>i<portTEST_NUM_SAMPLES cfg. clk core (2 * i + 1) - clk core (2 * i))"
    by (simp add: producer_data_def timed)
  have "stdout (shared s) = expected_output cfg clk"
    using inv(3) ret by (simp add: data_inv_def)
  then show "stdout (shared s) ! Suc core =
           Printf ''Core %d: %d\<newline>''
             [ArgInt (int core),
              ArgUBase ((\<Sum>i<portTEST_NUM_SAMPLES cfg. clk core (2 * i + 1) - clk core (2 * i))
                        div of_nat (portTEST_NUM_SAMPLES cfg))]"
    using core by (simp add: expected_output_def)
qed

lemma contention_no_wrap:
  fixes f :: "nat \<Rightarrow> 'w::len word"
  assumes "\<And>j. Suc j < 2 * n \<Longrightarrow> f j \<le> f (Suc j)"
  shows "true_sum n (\<lambda>i. f (2 * i + 1) - f (2 * i)) < 2 ^ LENGTH('w)"
  by (rule disjoint_samples_fit[where K="2 * n" and a="\<lambda>i. 2 * i" and b="\<lambda>i. 2 * i + 1"])
     (use assms in simp_all)

lemma crit_no_wrap:
  fixes f :: "nat \<Rightarrow> 'w::len word"
  assumes "\<And>j. Suc j < 4 * n \<Longrightarrow> f j \<le> f (Suc j)"
  shows "true_sum n (\<lambda>i. f (4 * i + 1) - f (4 * i)) < 2 ^ LENGTH('w)"
    and "true_sum n (\<lambda>i. f (4 * i + 3) - f (4 * i + 2)) < 2 ^ LENGTH('w)"
proof -
  show "true_sum n (\<lambda>i. f (4 * i + 1) - f (4 * i)) < 2 ^ LENGTH('w)"
    by (rule disjoint_samples_fit[where K="4 * n" and a="\<lambda>i. 4 * i" and b="\<lambda>i. 4 * i + 1"])
       (use assms in simp_all)
  show "true_sum n (\<lambda>i. f (4 * i + 3) - f (4 * i + 2)) < 2 ^ LENGTH('w)"
    by (rule disjoint_samples_fit[where K="4 * n" and a="\<lambda>i. 4 * i + 2" and b="\<lambda>i. 4 * i + 3"])
       (use assms in simp_all)
qed

lemma sum_fits_unat:
  fixes f :: "nat \<Rightarrow> 'w::len word"
  assumes "true_sum n f < 2 ^ LENGTH('w)"
  shows "unat (\<Sum>i<n. f i) = true_sum n f"
  using assms by (simp add: unat_sum_mod)

text \<open>
  A run in which the accumulator wraps: 128 samples of \<open>2 ^ 25\<close> cycles on 32 bits, from
  a counter that is read as 0 at the start and as \<open>2 ^ 25\<close> at the end of every round.
\<close>

lemma accumulator_wraps_example:
  "\<exists>sched s. TEST_CASE_QueueContention idf_config (\<lambda>c k. if odd k then 2 ^ 25 else (0 :: 32 word)) 0 sched
                = Inr (Some s)
         \<and> main_returned s
         \<and> uxElapsedCumulative (shared s) ! 0 = 0
         \<and> true_sum 128 (\<lambda>i. 2 ^ 25 :: 32 word) = 2 ^ 32"
proof -
  let ?clk = "\<lambda>c k. if odd k then 2 ^ 25 else (0 :: 32 word)"
  have c: "(0::nat) < configNUMBER_OF_CORES idf_config" and items: "0 < portTEST_NUM_ITEMS idf_config"
    by (simp_all add: idf_config_simps)
  obtain sched s where run: "TEST_CASE_QueueContention idf_config ?clk 0 sched = Inr (Some s)"
    and ret: "main_returned s"
    using test_case_completes[OF c items, of ?clk] by blast
  have "uxElapsedCumulative (shared s) ! 0 = 0"
    using returned_run_fields(1)[OF c c run ret] by (simp add: idf_config_simps)
  moreover have "true_sum 128 (\<lambda>i. 2 ^ 25 :: 32 word) = 2 ^ 32"
    by (simp add: true_sum_def)
  ultimately show ?thesis using run ret by blast
qed

lemma counting_clock_monotone:
  assumes "Suc j < 2 ^ LENGTH('w)"
  shows "(of_nat j :: 'w::len word) \<le> of_nat (Suc j)"
proof -
  have a: "unat (of_nat j :: 'w word) = j"
    using assms by (simp only: unat_of_nat) simp
  have b: "unat (of_nat (Suc j) :: 'w word) = Suc j"
    using assms by (simp only: unat_of_nat) simp
  show ?thesis
    unfolding word_le_nat_alt a b by simp
qed

lemma counting_clock_sum:
  "true_sum n (\<lambda>i. of_nat (2 * i + 1) - of_nat (2 * i) :: 'w::len word) = n"
  by (simp add: true_sum_def)

subsection \<open>The run and the two functions\<close>

text \<open>
  No run of the test case gets stuck before the main task returns: every run can be
  continued to one in which it has.
\<close>

lemma test_case_extends:
  fixes s :: "'w::len word system"
  assumes c: "c < configNUMBER_OF_CORES cfg"
    and run: "TEST_CASE_QueueContention cfg clk c sched = Inr (Some s)"
  shows "\<exists>more s'. TEST_CASE_QueueContention cfg clk c (sched @ more) = Inr (Some s') \<and> main_returned s'"
proof -
  note inv = test_case_inv[OF c run]
  obtain st0 :: "'w word contention_state" where su: "setup_idf cfg = Inr st0"
    and r: "run_system cfg clk c sched (system_start st0) = Some s"
    using run by (auto simp: TEST_CASE_QueueContention_def split: sum.splits)
  obtain more s' where m: "run_system cfg clk c more s = Some s'" and ret: "main_returned s'"
    using complete_run_exists[OF c inv] by blast
  have "TEST_CASE_QueueContention cfg clk c (sched @ more) = Inr (Some s')"
    by (simp add: TEST_CASE_QueueContention_def su run_system_append r m)
  with ret show ?thesis by blast
qed

text \<open>
  The interleaved run computes what the functions compute when run one after the
  other: the entries of a core whose producer is suspended are those
  \<open>prvProducerTask\<close> leaves when run alone on the state after setup, and the state
  in which the main task has returned is what \<open>Test_QueueContention\<close> makes of the
  data the producers have left.
\<close>

lemma suspended_producer_is_prvProducerTask:
  fixes s :: "'w::len word system"
  assumes c: "c < configNUMBER_OF_CORES cfg" and core: "core < configNUMBER_OF_CORES cfg"
    and run: "TEST_CASE_QueueContention cfg clk c sched = Inr (Some s)"
    and susp: "producer_at s core = Suspended"
  shows "\<exists>st. prvProducerTask cfg clk core (initial_state cfg) = Inr st
     \<and> xQueueHandles (shared s) ! core = xQueueHandles st ! core
     \<and> uxElapsedCumulative (shared s) ! core = uxElapsedCumulative st ! core
     \<and> ccount_reads (shared s) ! core = ccount_reads st ! core
     \<and> producer_trace (shared s) ! core = producer_trace st ! core"
proof -
  let ?n = "portTEST_NUM_SAMPLES cfg"
  let ?i = "initial_state cfg :: 'w word contention_state"
  note inv = test_case_inv[OF c run]
  have k: "iSamples_of s core = ?n"
    using inv(2) core susp by (simp add: tasks_inv_def)
  have pd: "producer_data cfg clk core ?n Suspended (shared s)"
    using inv(3) core k susp by (auto simp: data_inv_def)
  have ok: "arrays_ok core ?i"
    using core by (simp add: arrays_ok_def initial_state_def)
  have room: "length (messages (xQueueHandles ?i ! core)) + portTEST_NUM_ITEMS cfg
                 \<le> uxLength (xQueueHandles ?i ! core)"
    using core by (simp add: initial_state_def)
  let ?st = "log_producer core TaskSuspend (after_rounds cfg clk core ?n ?i)"
  have task: "prvProducerTask cfg clk core ?i = Inr ?st"
    by (rule prvProducerTask_ok[OF ok room])
  have "xQueueHandles (shared s) ! core = xQueueHandles ?st ! core
     \<and> uxElapsedCumulative (shared s) ! core = uxElapsedCumulative ?st ! core
     \<and> ccount_reads (shared s) ! core = ccount_reads ?st ! core
     \<and> producer_trace (shared s) ! core = producer_trace ?st ! core"
    using pd core
    by (simp add: producer_data_def rounds_timed_def round_prefix_def log_producer_def
        after_rounds_def initial_state_def)
  with task show ?thesis by blast
qed

lemma returned_main_is_Test_QueueContention:
  fixes s :: "'w::len word system"
  assumes c: "c < configNUMBER_OF_CORES cfg"
    and run: "TEST_CASE_QueueContention cfg clk c sched = Inr (Some s)"
    and ret: "main_returned s"
  shows "Test_QueueContention cfg c ((shared s)\<lparr>main_trace := [], stdout := []\<rparr>) = shared s"
proof -
  note inv = test_case_inv[OF c run]
  have h: "xProducerTaskHandles (shared s) = [0..<configNUMBER_OF_CORES cfg]"
    and tr: "main_trace (shared s) = take (main_calls s) (main_program cfg c)"
    and mc: "main_calls s = portTEST_NUM_SAMPLES cfg * (2 * configNUMBER_OF_CORES cfg)"
    using inv(2) ret by (simp_all add: tasks_inv_def)
  have prog: "main_trace (shared s) = main_program cfg c"
    using tr by (simp add: mc main_program_length[OF c])
  have o: "stdout (shared s) = expected_output cfg clk"
    using inv(3) ret by (simp add: data_inv_def)
  have cum: "uxElapsedCumulative (shared s) ! w
               = (\<Sum>i<portTEST_NUM_SAMPLES cfg. clk w (2 * i + 1) - clk w (2 * i))"
    if "w < configNUMBER_OF_CORES cfg" for w
    by (rule returned_run_fields(1)[OF c that run ret])
  have lines: "Printf ''Time taken to fill %d items, averaged over %d samples\<newline>''
           [ArgInt (int (portTEST_NUM_ITEMS cfg)), ArgInt (int (portTEST_NUM_SAMPLES cfg))]
         # average_lines cfg (uxElapsedCumulative (shared s)) [0..<configNUMBER_OF_CORES cfg]
         = stdout (shared s)"
    unfolding o by (rule average_lines_expected) (rule cum)
  have ev: "concat (replicate (portTEST_NUM_SAMPLES cfg)
               (round_events cfg c (xProducerTaskHandles (shared s)))) = main_trace (shared s)"
    using main_calls_of_eq[OF c h] by (simp add: main_calls_of_def contention_rounds_fold prog)
  show ?thesis
    by (simp add: Test_QueueContention_eq ev lines)
qed

section \<open>The claims\<close>

text \<open>
  C1.  With 2 cores, 256 items and 128 samples (\<open>idf_config\<close>), whatever the cycle
  counters read, whichever core the main task runs on and however the tasks are
  scheduled: when the main task has returned, no assertion has failed and the output
  is, after the heading, exactly two averages, one per core: the sum of that core's 128
  samples, as accumulated in \<open>UBaseType_t\<close>, divided by 128.  The sample of round \<open>i\<close>
  is the difference of the readings \<open>2 * i + 1\<close> and \<open>2 * i\<close> of the core's counter,
  and in the producer's trace exactly 256 calls of \<open>xQueueSend\<close> on the queue of that
  core, each returning \<open>pdTRUE\<close>, lie between these two readings.  The producer has
  then finished its 128 rounds and has reached \<open>vTaskSuspend\<close> or not.  Such a run
  exists, and no run gets stuck before: every run of the test case can be continued
  until the main task returns.
\<close>

theorem queue_contention_scenario:
  fixes clk :: "nat \<Rightarrow> nat \<Rightarrow> 'w::len word"
  assumes c: "xCoreID < 2"
  shows "(\<forall>sched s.
            TEST_CASE_QueueContention idf_config clk xCoreID sched = Inr (Some s) \<and> main_returned s
            \<longrightarrow> aborted s = None
              \<and> stdout (shared s) =
                  [Printf ''Time taken to fill %d items, averaged over %d samples\<newline>'' [ArgInt 256, ArgInt 128],
                   Printf ''Core %d: %d\<newline>'' [ArgInt 0, ArgUBase ((\<Sum>i<128. clk 0 (2 * i + 1) - clk 0 (2 * i)) div 128)],
                   Printf ''Core %d: %d\<newline>'' [ArgInt 1, ArgUBase ((\<Sum>i<128. clk 1 (2 * i + 1) - clk 1 (2 * i)) div 128)]]
              \<and> (\<forall>core<2.
                    uxElapsedCumulative (shared s) ! core = (\<Sum>i<128. clk core (2 * i + 1) - clk core (2 * i))
                  \<and> (\<exists>rest. (rest = [] \<or> rest = [TaskSuspend])
                       \<and> producer_trace (shared s) ! core =
                           concat (map (\<lambda>i. [NotifyTake, GetTime (clk core (2 * i))]
                                              @ map (\<lambda>k. QueueSend core (int k) pdTRUE) [0..<256]
                                              @ [GetTime (clk core (2 * i + 1)), QueueReset core, SemaphoreGive])
                                     [0..<128])
                           @ rest)))
       \<and> (\<exists>sched s. TEST_CASE_QueueContention idf_config clk xCoreID sched = Inr (Some s) \<and> main_returned s)
       \<and> (\<forall>sched s.
            TEST_CASE_QueueContention idf_config clk xCoreID sched = Inr (Some s)
            \<longrightarrow> (\<exists>more s'. TEST_CASE_QueueContention idf_config clk xCoreID (sched @ more) = Inr (Some s')
                           \<and> main_returned s'))"
proof -
  have c': "xCoreID < configNUMBER_OF_CORES idf_config" using c by (simp add: idf_config_simps)
  have ex: "\<exists>sched s. TEST_CASE_QueueContention idf_config clk xCoreID sched = Inr (Some s) \<and> main_returned s"
    by (rule test_case_completes[OF c']) (simp add: idf_config_simps)
  have all: "aborted s = None
              \<and> stdout (shared s) =
                  [Printf ''Time taken to fill %d items, averaged over %d samples\<newline>'' [ArgInt 256, ArgInt 128],
                   Printf ''Core %d: %d\<newline>'' [ArgInt 0, ArgUBase ((\<Sum>i<128. clk 0 (2 * i + 1) - clk 0 (2 * i)) div 128)],
                   Printf ''Core %d: %d\<newline>'' [ArgInt 1, ArgUBase ((\<Sum>i<128. clk 1 (2 * i + 1) - clk 1 (2 * i)) div 128)]]
              \<and> (\<forall>core<2.
                    uxElapsedCumulative (shared s) ! core = (\<Sum>i<128. clk core (2 * i + 1) - clk core (2 * i))
                  \<and> (\<exists>rest. (rest = [] \<or> rest = [TaskSuspend])
                       \<and> producer_trace (shared s) ! core =
                           concat (map (\<lambda>i. [NotifyTake, GetTime (clk core (2 * i))]
                                              @ map (\<lambda>k. QueueSend core (int k) pdTRUE) [0..<256]
                                              @ [GetTime (clk core (2 * i + 1)), QueueReset core, SemaphoreGive])
                                     [0..<128])
                           @ rest))"
    if run: "TEST_CASE_QueueContention idf_config clk xCoreID sched = Inr (Some s) \<and> main_returned s"
    for sched and s :: "'w word system"
  proof -
    note inv = test_case_inv[OF c' conjunct1[OF run]]
    have ret: "main_returned s" using run by simp
    have a: "aborted s = None" using inv(3) by (simp add: data_inv_def)
    have o: "stdout (shared s) =
          [Printf ''Time taken to fill %d items, averaged over %d samples\<newline>'' [ArgInt 256, ArgInt 128],
           Printf ''Core %d: %d\<newline>'' [ArgInt 0, ArgUBase ((\<Sum>i<128. clk 0 (2 * i + 1) - clk 0 (2 * i)) div 128)],
           Printf ''Core %d: %d\<newline>'' [ArgInt 1, ArgUBase ((\<Sum>i<128. clk 1 (2 * i + 1) - clk 1 (2 * i)) div 128)]]"
      using inv(3) ret by (simp add: data_inv_def expected_output_def idf_config_simps upt_0_2)
    have mc: "main_calls s = portTEST_NUM_SAMPLES idf_config * (2 * configNUMBER_OF_CORES idf_config)"
      using inv(2) ret by (simp add: tasks_inv_def)
    have z: "main_calls s mod (2 * configNUMBER_OF_CORES idf_config) = 0" by (simp add: mc)
    have p: "uxElapsedCumulative (shared s) ! core = (\<Sum>i<128. clk core (2 * i + 1) - clk core (2 * i))
      \<and> (\<exists>rest. (rest = [] \<or> rest = [TaskSuspend])
           \<and> producer_trace (shared s) ! core =
               concat (map (\<lambda>i. [NotifyTake, GetTime (clk core (2 * i))]
                                  @ map (\<lambda>k. QueueSend core (int k) pdTRUE) [0..<256]
                                  @ [GetTime (clk core (2 * i + 1)), QueueReset core, SemaphoreGive])
                         [0..<128])
               @ rest)"
      if core: "core < 2" for core
    proof -
      have core': "core < configNUMBER_OF_CORES idf_config" using core by (simp add: idf_config_simps)
      have k: "iSamples_of s core = 128" and idle: "\<not> in_round s core"
        using barrier_round_start(2)[OF inv(1) z core'] by (simp_all add: mc idf_config_simps)
      have pd: "producer_data idf_config clk core 128 (producer_at s core) (shared s)"
        using inv(3) core' k by (auto simp: data_inv_def)
      have timed: "rounds_timed 128 (producer_at s core) = 128"
        using idle by (simp add: rounds_timed_def in_round_def)
      have rounds: "rounds_trace idf_config clk core 0 128 =
          concat (map (\<lambda>i. [NotifyTake, GetTime (clk core (2 * i))]
                             @ map (\<lambda>k. QueueSend core (int k) pdTRUE) [0..<256]
                             @ [GetTime (clk core (2 * i + 1)), QueueReset core, SemaphoreGive])
                    [0..<128])"
        by (simp add: rounds_trace_def round_trace_def idf_config_simps)
      have rest: "round_prefix idf_config clk core 128 (producer_at s core) = []
                \<or> round_prefix idf_config clk core 128 (producer_at s core) = [TaskSuspend]"
        using idle by (cases "producer_at s core") (simp_all add: round_prefix_def in_round_def)
      have tr: "producer_trace (shared s) ! core =
                  rounds_trace idf_config clk core 0 128
                  @ round_prefix idf_config clk core 128 (producer_at s core)"
        using pd by (simp add: producer_data_def)
      have cum: "uxElapsedCumulative (shared s) ! core = (\<Sum>i<128. clk core (2 * i + 1) - clk core (2 * i))"
        using pd by (simp add: producer_data_def timed)
      have "\<exists>rest. (rest = [] \<or> rest = [TaskSuspend])
           \<and> producer_trace (shared s) ! core =
               concat (map (\<lambda>i. [NotifyTake, GetTime (clk core (2 * i))]
                                  @ map (\<lambda>k. QueueSend core (int k) pdTRUE) [0..<256]
                                  @ [GetTime (clk core (2 * i + 1)), QueueReset core, SemaphoreGive])
                         [0..<128])
               @ rest"
        using rest unfolding tr rounds by blast
      with cum show ?thesis by (rule conjI)
    qed
    from a o p show ?thesis by blast
  qed
  have ext: "\<exists>more s'. TEST_CASE_QueueContention idf_config clk xCoreID (sched @ more) = Inr (Some s')
                           \<and> main_returned s'"
    if "TEST_CASE_QueueContention idf_config clk xCoreID sched = Inr (Some s)"
    for sched and s :: "'w word system"
    using that by (rule test_case_extends[OF c'])
  from all ex ext show ?thesis by blast
qed

theorem queue_contention_scenario_witness:
  "(0::nat) < 2
   \<and> (\<exists>sched s. TEST_CASE_QueueContention idf_config (\<lambda>c k. of_nat k :: 32 word) 0 sched = Inr (Some s)
         \<and> main_returned s
         \<and> stdout (shared s) =
             [Printf ''Time taken to fill %d items, averaged over %d samples\<newline>'' [ArgInt 256, ArgInt 128],
              Printf ''Core %d: %d\<newline>'' [ArgInt 0, ArgUBase 1],
              Printf ''Core %d: %d\<newline>'' [ArgInt 1, ArgUBase 1]])"
proof -
  note th = queue_contention_scenario[of 0 "\<lambda>c k. of_nat k :: 32 word"]
  have z: "(0::nat) < 2" by simp
  obtain sched s where run: "TEST_CASE_QueueContention idf_config (\<lambda>c k. of_nat k :: 32 word) 0 sched = Inr (Some s)"
    and ret: "main_returned s"
    using th[OF z] by blast
  have "stdout (shared s) =
             [Printf ''Time taken to fill %d items, averaged over %d samples\<newline>'' [ArgInt 256, ArgInt 128],
              Printf ''Core %d: %d\<newline>'' [ArgInt 0, ArgUBase ((\<Sum>i<128. of_nat (2 * i + 1) - of_nat (2 * i)) div 128)],
              Printf ''Core %d: %d\<newline>'' [ArgInt 1, ArgUBase ((\<Sum>i<128. of_nat (2 * i + 1) - of_nat (2 * i)) div 128)]]"
    using th[OF z] run ret by blast
  then have "stdout (shared s) =
             [Printf ''Time taken to fill %d items, averaged over %d samples\<newline>'' [ArgInt 256, ArgInt 128],
              Printf ''Core %d: %d\<newline>'' [ArgInt 0, ArgUBase 1],
              Printf ''Core %d: %d\<newline>'' [ArgInt 1, ArgUBase 1]]"
    by simp
  with run ret z show ?thesis by blast
qed

text \<open>
  C2.  In every state of every run of the test case, with \<open>configNUMBER_OF_CORES\<close>
  workers and a positive number \<open>portTEST_NUM_SAMPLES\<close> of rounds, the main task on
  one of the cores.  The calls the main task has made are an initial stretch of its
  rounds, each a \<open>xTaskNotifyGive\<close> to each worker exactly once, then as many
  \<open>xSemaphoreTake\<close> calls as there are workers.  A take returns only on a count that
  is not 0 and lowers it, so every take the main task has made consumed one
  \<open>xSemaphoreGive\<close> of a producer: the count and the takes made add up to the gives
  made.  Every producer has completed the rounds before the one the main task is
  in, and at most that one in addition.  When the main task stands at the start of a
  round, about to issue its first release, the count is 0, the takes made are all those
  of the rounds before, and every producer has completed exactly these rounds and is
  neither released nor working.  The main task returns only after the last take of the
  last round.
\<close>

theorem coordinator_rounds_serialized:
  fixes s :: "'w::len word system"
  assumes c: "xCoreID < configNUMBER_OF_CORES cfg"
    and n: "0 < portTEST_NUM_SAMPLES cfg"
    and run: "TEST_CASE_QueueContention cfg clk xCoreID sched = Inr (Some s)"
  shows "main_trace (shared s) =
           take (main_calls s)
             (concat (replicate (portTEST_NUM_SAMPLES cfg)
                (map TaskNotifyGive (release_order cfg xCoreID)
                 @ replicate (configNUMBER_OF_CORES cfg) SemaphoreTake)))
     \<and> main_calls s \<le> portTEST_NUM_SAMPLES cfg * (2 * configNUMBER_OF_CORES cfg)
     \<and> length (release_order cfg xCoreID) = configNUMBER_OF_CORES cfg
     \<and> distinct (release_order cfg xCoreID)
     \<and> set (release_order cfg xCoreID) = {0..<configNUMBER_OF_CORES cfg}
     \<and> uxSemaphoreCount s + count_list (main_trace (shared s)) SemaphoreTake
         = (\<Sum>w<configNUMBER_OF_CORES cfg. count_list (producer_trace (shared s) ! w) SemaphoreGive)
     \<and> (\<forall>w<configNUMBER_OF_CORES cfg.
           count_list (producer_trace (shared s) ! w) SemaphoreGive = iSamples_of s w
         \<and> main_calls s div (2 * configNUMBER_OF_CORES cfg) \<le> iSamples_of s w
         \<and> iSamples_of s w \<le> Suc (main_calls s div (2 * configNUMBER_OF_CORES cfg)))
     \<and> (main_calls s mod (2 * configNUMBER_OF_CORES cfg) = 0 \<longrightarrow>
           uxSemaphoreCount s = 0
         \<and> count_list (main_trace (shared s)) SemaphoreTake
             = configNUMBER_OF_CORES cfg * (main_calls s div (2 * configNUMBER_OF_CORES cfg))
         \<and> (\<forall>w<configNUMBER_OF_CORES cfg.
               iSamples_of s w = main_calls s div (2 * configNUMBER_OF_CORES cfg)
             \<and> ulNotifiedValue s w = 0
             \<and> producer_at s w \<noteq> AtWork \<and> producer_at s w \<noteq> AtGive))
     \<and> (main_returned s \<longrightarrow>
           main_calls s = portTEST_NUM_SAMPLES cfg * (2 * configNUMBER_OF_CORES cfg))"
proof -
  let ?N = "configNUMBER_OF_CORES cfg"
  note inv = test_case_inv[OF c run]
  note parts = barrier_inv_parts[OF inv(1)]
  note ro = release_order_props[OF c]
  note acc = completions_consumed[OF c inv]
  have tr: "main_trace (shared s) = take (main_calls s) (main_program cfg xCoreID)"
    using inv(2) by (simp add: tasks_inv_def)
  have a: "main_trace (shared s) =
           take (main_calls s)
             (concat (replicate (portTEST_NUM_SAMPLES cfg)
                (map TaskNotifyGive (release_order cfg xCoreID) @ replicate ?N SemaphoreTake)))"
    using tr by (simp only: main_program_def)
  have d: "\<forall>w<?N. count_list (producer_trace (shared s) ! w) SemaphoreGive = iSamples_of s w
         \<and> main_calls s div (2 * ?N) \<le> iSamples_of s w
         \<and> iSamples_of s w \<le> Suc (main_calls s div (2 * ?N))"
    using acc(2) barrier_round_bound(2,3)[OF c inv(1)] by blast
  have e: "uxSemaphoreCount s = 0
         \<and> count_list (main_trace (shared s)) SemaphoreTake = ?N * (main_calls s div (2 * ?N))
         \<and> (\<forall>w<?N. iSamples_of s w = main_calls s div (2 * ?N) \<and> ulNotifiedValue s w = 0
             \<and> producer_at s w \<noteq> AtWork \<and> producer_at s w \<noteq> AtGive)"
    if z: "main_calls s mod (2 * ?N) = 0"
  proof -
    note st = barrier_round_start[OF inv(1) z]
    have "count_list (main_trace (shared s)) SemaphoreTake = ?N * (main_calls s div (2 * ?N))"
      unfolding tr using takes_in_trace[OF c parts(1)] by (simp add: z)
    moreover have "\<forall>w<?N. iSamples_of s w = main_calls s div (2 * ?N) \<and> ulNotifiedValue s w = 0
             \<and> producer_at s w \<noteq> AtWork \<and> producer_at s w \<noteq> AtGive"
      using st(2) by (auto simp: in_round_def)
    ultimately show ?thesis using st(1) by blast
  qed
  have f: "main_returned s \<longrightarrow> main_calls s = portTEST_NUM_SAMPLES cfg * (2 * ?N)"
    using inv(2) by (simp add: tasks_inv_def)
  from a parts(1) ro acc(1) d e f show ?thesis by blast
qed

theorem coordinator_rounds_serialized_witness:
  "(0::nat) < configNUMBER_OF_CORES idf_config \<and> 0 < portTEST_NUM_SAMPLES idf_config
   \<and> (\<exists>sched s. TEST_CASE_QueueContention idf_config (\<lambda>c k. of_nat k :: 32 word) 0 sched = Inr (Some s)
        \<and> main_returned s
        \<and> main_trace (shared s) = concat (replicate 128
             [TaskNotifyGive 1, TaskNotifyGive 0, SemaphoreTake, SemaphoreTake])
        \<and> uxSemaphoreCount s = 0
        \<and> count_list (main_trace (shared s)) SemaphoreTake = 256
        \<and> iSamples_of s 0 = 128 \<and> iSamples_of s 1 = 128)"
proof -
  have c: "(0::nat) < configNUMBER_OF_CORES idf_config" and n: "0 < portTEST_NUM_SAMPLES idf_config"
    and items: "0 < portTEST_NUM_ITEMS idf_config"
    by (simp_all add: idf_config_simps)
  obtain sched s where run: "TEST_CASE_QueueContention idf_config (\<lambda>c k. of_nat k :: 32 word) 0 sched = Inr (Some s)"
    and ret: "main_returned s"
    using test_case_completes[OF c items] by blast
  note th = coordinator_rounds_serialized[OF c n run]
  have ro: "release_order idf_config 0 = [1, 0]"
    by (simp add: release_order_def idf_config_simps upt_0_2)
  have ret': "main_calls s = portTEST_NUM_SAMPLES idf_config * (2 * configNUMBER_OF_CORES idf_config)"
    using th ret by blast
  then have mc: "main_calls s = 512" by (simp add: idf_config_simps)
  have z: "main_calls s mod (2 * configNUMBER_OF_CORES idf_config) = 0"
    by (simp add: mc idf_config_simps)
  have len: "length (concat (replicate 128 [TaskNotifyGive 1, TaskNotifyGive 0, SemaphoreTake, SemaphoreTake])) = 512"
    by (simp add: length_concat sum_list_replicate)
  have "main_trace (shared s) =
           take (main_calls s)
             (concat (replicate (portTEST_NUM_SAMPLES idf_config)
                (map TaskNotifyGive (release_order idf_config 0)
                 @ replicate (configNUMBER_OF_CORES idf_config) SemaphoreTake)))"
    using th by blast
  then have tr: "main_trace (shared s) = concat (replicate 128
             [TaskNotifyGive 1, TaskNotifyGive 0, SemaphoreTake, SemaphoreTake])"
    using len by (simp add: mc ro idf_config_simps numeral_2_eq_2)
  have start: "uxSemaphoreCount s = 0
         \<and> count_list (main_trace (shared s)) SemaphoreTake
             = configNUMBER_OF_CORES idf_config * (main_calls s div (2 * configNUMBER_OF_CORES idf_config))
         \<and> (\<forall>w<configNUMBER_OF_CORES idf_config.
               iSamples_of s w = main_calls s div (2 * configNUMBER_OF_CORES idf_config)
             \<and> ulNotifiedValue s w = 0
             \<and> producer_at s w \<noteq> AtWork \<and> producer_at s w \<noteq> AtGive)"
    using th z by blast
  have rest: "uxSemaphoreCount s = 0 \<and> count_list (main_trace (shared s)) SemaphoreTake = 256
        \<and> iSamples_of s 0 = 128 \<and> iSamples_of s 1 = 128"
    using start by (simp add: mc idf_config_simps)
  from c n run ret tr rest show ?thesis by blast
qed

text \<open>
  C3.  With the main task on core \<open>xCoreID\<close> and the handles as \<open>setup_idf\<close> leaves
  them, every round notifies first the producers of all other cores, in index order,
  then the producer of \<open>xCoreID\<close>, and only then takes the semaphore; the whole test
  is \<open>portTEST_NUM_SAMPLES\<close> such rounds.
\<close>

theorem local_worker_released_last:
  fixes st :: "'w::len word contention_state"
  assumes c: "xCoreID < configNUMBER_OF_CORES cfg"
    and h: "xProducerTaskHandles st = [0..<configNUMBER_OF_CORES cfg]"
  shows "main_trace (contention_round cfg xCoreID iIter st) =
           main_trace st
           @ map TaskNotifyGive (filter (\<lambda>w. w \<noteq> xCoreID) [0..<configNUMBER_OF_CORES cfg])
           @ [TaskNotifyGive xCoreID]
           @ replicate (configNUMBER_OF_CORES cfg) SemaphoreTake
     \<and> main_trace (Test_QueueContention cfg xCoreID st) =
           main_trace st
           @ concat (replicate (portTEST_NUM_SAMPLES cfg)
               (map TaskNotifyGive (filter (\<lambda>w. w \<noteq> xCoreID) [0..<configNUMBER_OF_CORES cfg])
                @ [TaskNotifyGive xCoreID]
                @ replicate (configNUMBER_OF_CORES cfg) SemaphoreTake))
     \<and> set (filter (\<lambda>w. w \<noteq> xCoreID) [0..<configNUMBER_OF_CORES cfg])
           = {w. w < configNUMBER_OF_CORES cfg \<and> w \<noteq> xCoreID}"
proof -
  let ?N = "configNUMBER_OF_CORES cfg"
  have eq: "map (\<lambda>iCore. TaskNotifyGive ([0..<?N] ! iCore)) (filter (\<lambda>w. w \<noteq> xCoreID) [0..<?N])
          = map TaskNotifyGive (filter (\<lambda>w. w \<noteq> xCoreID) [0..<?N])"
    by (intro map_cong) auto
  have ev: "round_events cfg xCoreID (xProducerTaskHandles st) =
      map TaskNotifyGive (filter (\<lambda>w. w \<noteq> xCoreID) [0..<?N]) @ [TaskNotifyGive xCoreID]
        @ replicate ?N SemaphoreTake"
    using c by (simp add: round_events_def release_order_def h eq)
  show ?thesis
    by (simp only: contention_round_eq Test_QueueContention_eq ev) auto
qed

theorem local_worker_released_last_witness:
  "(1::nat) < configNUMBER_OF_CORES idf_config
   \<and> xProducerTaskHandles (initial_state idf_config :: 32 word contention_state)
        = [0..<configNUMBER_OF_CORES idf_config]
   \<and> main_trace (Test_QueueContention idf_config 1 (initial_state idf_config :: 32 word contention_state))
        = concat (replicate 128 [TaskNotifyGive 0, TaskNotifyGive 1, SemaphoreTake, SemaphoreTake])"
  using local_worker_released_last[of 1 idf_config "initial_state idf_config :: 32 word contention_state" 0]
  by (simp add: idf_config_simps initial_state_def upt_0_2 numeral_2_eq_2)

text \<open>
  C4.  One iteration of a producer whose queue has room for the workload: the sample it
  adds to the accumulator of its core is the second reading minus the first; between
  the two readings the trace holds the \<open>portTEST_NUM_ITEMS\<close> sends and nothing else,
  and \<open>xQueueReset\<close> comes after the second reading.  The iteration leaves the queue
  empty with its capacity unchanged, so the same holds for the next iteration.
\<close>

theorem sample_excludes_reset:
  fixes st :: "'w::len word contention_state"
  assumes ok: "arrays_ok core st"
    and room: "length (messages (xQueueHandles st ! core)) + portTEST_NUM_ITEMS cfg
                 \<le> uxLength (xQueueHandles st ! core)"
  shows "\<exists>st'. producer_iteration cfg clk core iSamples st = Inr st'
     \<and> uxElapsedCumulative st' ! core =
         uxElapsedCumulative st ! core
         + (clk core (Suc (ccount_reads st ! core)) - clk core (ccount_reads st ! core))
     \<and> producer_trace st' ! core =
         producer_trace st ! core
         @ [NotifyTake, GetTime (clk core (ccount_reads st ! core))]
         @ map (\<lambda>k. QueueSend core (int k) pdTRUE) [0..<portTEST_NUM_ITEMS cfg]
         @ [GetTime (clk core (Suc (ccount_reads st ! core))), QueueReset core, SemaphoreGive]
     \<and> ccount_reads st' ! core = ccount_reads st ! core + 2
     \<and> arrays_ok core st'
     \<and> messages (xQueueHandles st' ! core) = []
     \<and> uxLength (xQueueHandles st' ! core) = uxLength (xQueueHandles st ! core)"
  using ok
  by (simp add: producer_iteration_ok[OF ok room] arrays_ok_def round_trace_def)

theorem sample_excludes_reset_witness:
  "arrays_ok 0 (initial_state \<lparr>configNUMBER_OF_CORES = 1, portTEST_NUM_SAMPLES = 1, portTEST_NUM_ITEMS = 2\<rparr>
               :: 32 word contention_state)
   \<and> (\<exists>st'. producer_iteration \<lparr>configNUMBER_OF_CORES = 1, portTEST_NUM_SAMPLES = 1, portTEST_NUM_ITEMS = 2\<rparr>
               (\<lambda>c k. 7 + 10 * of_nat k) 0 0
               (initial_state \<lparr>configNUMBER_OF_CORES = 1, portTEST_NUM_SAMPLES = 1, portTEST_NUM_ITEMS = 2\<rparr>
                  :: 32 word contention_state) = Inr st'
        \<and> uxElapsedCumulative st' ! 0 = 10
        \<and> producer_trace st' ! 0 =
            [NotifyTake, GetTime 7, QueueSend 0 0 pdTRUE, QueueSend 0 1 pdTRUE, GetTime 17,
             QueueReset 0, SemaphoreGive])"
proof -
  let ?cfg = "\<lparr>configNUMBER_OF_CORES = 1, portTEST_NUM_SAMPLES = 1, portTEST_NUM_ITEMS = 2\<rparr>"
  let ?st = "initial_state ?cfg :: 32 word contention_state"
  have ok: "arrays_ok 0 ?st"
    by (simp add: arrays_ok_def initial_state_def)
  have room: "length (messages (xQueueHandles ?st ! 0)) + portTEST_NUM_ITEMS ?cfg
                 \<le> uxLength (xQueueHandles ?st ! 0)"
    by (simp add: initial_state_def)
  show ?thesis
    using ok sample_excludes_reset[OF ok room, of "\<lambda>c k. 7 + 10 * of_nat k" 0]
    by (auto simp: initial_state_def numeral_2_eq_2)
qed

text \<open>
  C5.  Every average printed is the accumulator divided by \<open>portTEST_NUM_SAMPLES\<close>
  with the remainder discarded: the word passed to \<open>printf\<close> is the floor of the
  quotient of the unsigned values, in \<open>Test_QueueContention\<close> for each core and in
  \<open>Test_CriticalSectionSpeed\<close> for both accumulators.  The sample count fits the word.
\<close>

theorem average_is_integer_division:
  fixes st :: "'w::len word contention_state" and clk :: "nat \<Rightarrow> 'w word"
  assumes n0: "0 < portTEST_NUM_SAMPLES cfg"
    and n: "portTEST_NUM_SAMPLES cfg < 2 ^ LENGTH('w)"
  shows "stdout (Test_QueueContention cfg xCoreID st) =
           stdout st
           @ Printf ''Time taken to fill %d items, averaged over %d samples\<newline>''
               [ArgInt (int (portTEST_NUM_ITEMS cfg)), ArgInt (int (portTEST_NUM_SAMPLES cfg))]
           # map (\<lambda>iCore. Printf ''Core %d: %d\<newline>''
                    [ArgInt (int iCore),
                     ArgUBase (of_nat (unat (uxElapsedCumulative st ! iCore) div portTEST_NUM_SAMPLES cfg))])
               [0..<configNUMBER_OF_CORES cfg]
     \<and> crit_stdout (Test_CriticalSectionSpeed cfg clk) =
           [Printf ''taskENTER_CRITICAL() average elapsed time: %u\<newline>''
              [ArgUBase (of_nat (unat (uxEntryElapsedCumulative (Test_CriticalSectionSpeed cfg clk))
                                 div portTEST_NUM_SAMPLES cfg))],
            Printf ''taskEXIT_CRITICAL() average elapsed time: %u\<newline>''
              [ArgUBase (of_nat (unat (uxExitElapsedCumulative (Test_CriticalSectionSpeed cfg clk))
                                 div portTEST_NUM_SAMPLES cfg))]]
     \<and> (\<forall>x :: 'w word. unat (of_nat (unat x div portTEST_NUM_SAMPLES cfg) :: 'w word)
                          = unat x div portTEST_NUM_SAMPLES cfg)"
proof -
  have "stdout (Test_QueueContention cfg xCoreID st) =
           stdout st
           @ Printf ''Time taken to fill %d items, averaged over %d samples\<newline>''
               [ArgInt (int (portTEST_NUM_ITEMS cfg)), ArgInt (int (portTEST_NUM_SAMPLES cfg))]
           # map (\<lambda>iCore. Printf ''Core %d: %d\<newline>''
                    [ArgInt (int iCore),
                     ArgUBase (of_nat (unat (uxElapsedCumulative st ! iCore) div portTEST_NUM_SAMPLES cfg))])
               [0..<configNUMBER_OF_CORES cfg]"
    by (simp add: Test_QueueContention_eq average_lines_def word_div_of_nat(1)[OF n])
  moreover have "crit_stdout (Test_CriticalSectionSpeed cfg clk) =
           [Printf ''taskENTER_CRITICAL() average elapsed time: %u\<newline>''
              [ArgUBase (of_nat (unat (uxEntryElapsedCumulative (Test_CriticalSectionSpeed cfg clk))
                                 div portTEST_NUM_SAMPLES cfg))],
            Printf ''taskEXIT_CRITICAL() average elapsed time: %u\<newline>''
              [ArgUBase (of_nat (unat (uxExitElapsedCumulative (Test_CriticalSectionSpeed cfg clk))
                                 div portTEST_NUM_SAMPLES cfg))]]"
    by (subst crit_print_fields(3)) (simp only: word_div_of_nat(1)[OF n])
  ultimately show ?thesis
    using word_div_of_nat(2)[OF n] by blast
qed

theorem average_is_integer_division_witness:
  "0 < portTEST_NUM_SAMPLES idf_config \<and> portTEST_NUM_SAMPLES idf_config < 2 ^ LENGTH(32)
   \<and> stdout (Test_QueueContention idf_config 0
        ((initial_state idf_config :: 32 word contention_state)\<lparr>uxElapsedCumulative := [1000, 257]\<rparr>)) =
       [Printf ''Time taken to fill %d items, averaged over %d samples\<newline>'' [ArgInt 256, ArgInt 128],
        Printf ''Core %d: %d\<newline>'' [ArgInt 0, ArgUBase 7],
        Printf ''Core %d: %d\<newline>'' [ArgInt 1, ArgUBase 2]]"
  using average_is_integer_division[of idf_config 0
      "(initial_state idf_config :: 32 word contention_state)\<lparr>uxElapsedCumulative := [1000, 257]\<rparr>"
      "\<lambda>k. 0"]
  by (simp add: idf_config_simps initial_state_def upt_0_2)

text \<open>
  C6.  After \<open>setup_idf\<close>, which creates every queue with \<open>portTEST_NUM_ITEMS\<close>
  slots, the queue of a core is empty at the start of every round \<open>k\<close> of its
  producer: at the first by creation, afterwards by the reset that ends the previous
  round.  So round \<open>k\<close> succeeds with all its sends returning \<open>pdTRUE\<close> and leaves the
  queue empty again; the producer runs to its end, and no send in its trace failed.
\<close>

theorem queue_never_full:
  fixes st0 :: "'w::len word contention_state"
  assumes su: "setup_idf cfg = Inr st0"
    and core: "core < configNUMBER_OF_CORES cfg"
    and k: "k < portTEST_NUM_SAMPLES cfg"
  shows "\<exists>st_k st' st_end.
       for_loop [0..<k] (producer_iteration cfg clk core) st0 = Inr st_k
     \<and> messages (xQueueHandles st_k ! core) = []
     \<and> uxLength (xQueueHandles st_k ! core) = portTEST_NUM_ITEMS cfg
     \<and> producer_iteration cfg clk core k st_k = Inr st'
     \<and> producer_trace st' ! core =
         producer_trace st_k ! core
         @ [NotifyTake, GetTime (clk core (2 * k))]
         @ map (\<lambda>i. QueueSend core (int i) pdTRUE) [0..<portTEST_NUM_ITEMS cfg]
         @ [GetTime (clk core (2 * k + 1)), QueueReset core, SemaphoreGive]
     \<and> messages (xQueueHandles st' ! core) = []
     \<and> prvProducerTask cfg clk core st0 = Inr st_end
     \<and> (\<forall>c v res. QueueSend c v res \<in> set (producer_trace st_end ! core) \<longrightarrow> res = pdTRUE)"
proof -
  have N: "0 < configNUMBER_OF_CORES cfg" using core by simp
  note s = setup_idf_Inr[OF su N]
  have ok: "arrays_ok core st0"
    using core by (simp add: s(2) arrays_ok_def initial_state_def)
  have room: "length (messages (xQueueHandles st0 ! core)) + portTEST_NUM_ITEMS cfg
                 \<le> uxLength (xQueueHandles st0 ! core)"
    using core by (simp add: s(2) initial_state_def)
  let ?sk = "after_rounds cfg clk core k st0"
  have pre: "for_loop [0..<k] (producer_iteration cfg clk core) st0 = Inr ?sk"
    by (rule producer_rounds_ok[OF ok room])
  have q: "messages (xQueueHandles ?sk ! core) = []"
    "uxLength (xQueueHandles ?sk ! core) = portTEST_NUM_ITEMS cfg"
    "ccount_reads ?sk ! core = 2 * k"
    using core by (simp_all add: after_rounds_def s(2) initial_state_def)
  have ok': "arrays_ok core ?sk"
    using ok by (simp add: after_rounds_def arrays_ok_def)
  have room': "length (messages (xQueueHandles ?sk ! core)) + portTEST_NUM_ITEMS cfg
                 \<le> uxLength (xQueueHandles ?sk ! core)"
    by (simp add: q)
  let ?s' = "after_rounds cfg clk core (Suc k) st0"
  have it': "producer_iteration cfg clk core k ?sk = Inr ?s'"
    using producer_rounds_ok[OF ok room, where k="Suc k" and clk=clk] pre
    by (simp add: for_loop_append split: sum.splits)
  have tr': "producer_trace ?s' ! core =
         producer_trace ?sk ! core
         @ [NotifyTake, GetTime (clk core (2 * k))]
         @ map (\<lambda>i. QueueSend core (int i) pdTRUE) [0..<portTEST_NUM_ITEMS cfg]
         @ [GetTime (clk core (2 * k + 1)), QueueReset core, SemaphoreGive]"
    using ok by (simp add: after_rounds_def arrays_ok_def rounds_trace_def round_trace_def
        s(2) initial_state_def)
  have m': "messages (xQueueHandles ?s' ! core) = []"
    using ok by (simp add: after_rounds_def arrays_ok_def)
  let ?se = "log_producer core TaskSuspend (after_rounds cfg clk core (portTEST_NUM_SAMPLES cfg) st0)"
  have fin: "prvProducerTask cfg clk core st0 = Inr ?se"
    by (rule prvProducerTask_ok[OF ok room])
  have tre: "producer_trace ?se ! core
        = rounds_trace cfg clk core 0 (portTEST_NUM_SAMPLES cfg) @ [TaskSuspend]"
    using ok by (simp add: log_producer_def after_rounds_def arrays_ok_def s(2) initial_state_def)
  have all: "\<forall>c v res. QueueSend c v res \<in> set (producer_trace ?se ! core) \<longrightarrow> res = pdTRUE"
    unfolding tre using rounds_trace_sends by fastforce
  from pre q(1,2) it' tr' m' fin all show ?thesis by blast
qed

theorem queue_never_full_witness:
  "setup_idf idf_config = Inr (initial_state idf_config :: 32 word contention_state)
   \<and> (1::nat) < configNUMBER_OF_CORES idf_config \<and> (127::nat) < portTEST_NUM_SAMPLES idf_config
   \<and> (\<exists>st_k st'. for_loop [0..<127] (producer_iteration idf_config (\<lambda>c k. of_nat k) 1)
                     (initial_state idf_config :: 32 word contention_state) = Inr st_k
         \<and> messages (xQueueHandles st_k ! 1) = []
         \<and> uxLength (xQueueHandles st_k ! 1) = 256
         \<and> producer_iteration idf_config (\<lambda>c k. of_nat k) 1 127 st_k = Inr st')"
proof -
  have s: "setup_idf idf_config = Inr (initial_state idf_config :: 32 word contention_state)"
    by (rule setup_idf_ok) (simp_all add: idf_config_simps)
  have c: "(1::nat) < configNUMBER_OF_CORES idf_config" and k: "(127::nat) < portTEST_NUM_SAMPLES idf_config"
    by (simp_all add: idf_config_simps)
  from queue_never_full[OF s c k, of "\<lambda>c k. of_nat k"] s c k
  show ?thesis by (auto simp: idf_config_simps)
qed




text \<open>
  C8.  \<open>Test_CriticalSectionSpeed\<close> with 128 samples prints exactly two lines, one
  average for entering and one for leaving a critical section, each the sum of 128
  samples, as accumulated in \<open>UBaseType_t\<close>, divided by 128.  Each sample is the
  difference of two readings with exactly one call of the primitive between them.
\<close>

theorem critical_section_scenario:
  fixes clk :: "nat \<Rightarrow> 'w::len word"
  shows "crit_stdout (Test_CriticalSectionSpeed idf_config clk) =
           [Printf ''taskENTER_CRITICAL() average elapsed time: %u\<newline>''
              [ArgUBase ((\<Sum>i<128. clk (4 * i + 1) - clk (4 * i)) div 128)],
            Printf ''taskEXIT_CRITICAL() average elapsed time: %u\<newline>''
              [ArgUBase ((\<Sum>i<128. clk (4 * i + 3) - clk (4 * i + 2)) div 128)]]
     \<and> crit_trace (Test_CriticalSectionSpeed idf_config clk) =
           concat (map (\<lambda>i. [CritGetTime (clk (4 * i)), EnterCritical, CritGetTime (clk (4 * i + 1)),
                             CritGetTime (clk (4 * i + 2)), ExitCritical, CritGetTime (clk (4 * i + 3))])
                    [0..<128])"
  using crit_samples_fold[of clk 128]
  by (simp add: Test_CriticalSectionSpeed_def Let_def idf_config_simps crit_sample_trace_def[abs_def])

text \<open>
  C9, as amended.  Samples and accumulators are \<open>UBaseType_t\<close> words of \<open>LENGTH('w)\<close>
  bits: a sample is the difference of its two readings modulo \<open>2 ^ LENGTH('w)\<close>, the
  accumulator of a core when the main task has returned is the sum of its samples
  modulo \<open>2 ^ LENGTH('w)\<close>, and the average printed is that value divided by the
  sample count.  It equals the mean of the samples taken as natural numbers
  (\<open>true_sum\<close> divided by the count) exactly when \<open>true_sum\<close> is below
  \<open>2 ^ LENGTH('w)\<close>.  When the readings the core's counter gives during the run never
  decrease (no wrap of the counter), \<open>true_sum\<close> is below \<open>2 ^ LENGTH('w)\<close> and the
  average printed is that mean.  The same holds for the two accumulators of
  \<open>Test_CriticalSectionSpeed\<close>.
\<close>

theorem accumulator_arithmetic_is_modular:
  fixes clk :: "nat \<Rightarrow> nat \<Rightarrow> 'w::len word" and cclk :: "nat \<Rightarrow> 'w word"
    and s :: "'w word system"
  assumes c: "xCoreID < configNUMBER_OF_CORES cfg"
    and core: "core < configNUMBER_OF_CORES cfg"
    and n0: "0 < portTEST_NUM_SAMPLES cfg"
    and n1: "portTEST_NUM_SAMPLES cfg < 2 ^ LENGTH('w)"
    and run: "TEST_CASE_QueueContention cfg clk xCoreID sched = Inr (Some s)"
    and ret: "main_returned s"
  shows "(\<exists>avg.
        (\<forall>i. uint (clk core (2 * i + 1) - clk core (2 * i))
                = (uint (clk core (2 * i + 1)) - uint (clk core (2 * i))) mod 2 ^ LENGTH('w))
      \<and> unat (uxElapsedCumulative (shared s) ! core)
          = true_sum (portTEST_NUM_SAMPLES cfg) (\<lambda>i. clk core (2 * i + 1) - clk core (2 * i))
              mod 2 ^ LENGTH('w)
      \<and> stdout (shared s) ! Suc core = Printf ''Core %d: %d\<newline>'' [ArgInt (int core), ArgUBase avg]
      \<and> unat avg
          = (true_sum (portTEST_NUM_SAMPLES cfg) (\<lambda>i. clk core (2 * i + 1) - clk core (2 * i))
               mod 2 ^ LENGTH('w)) div portTEST_NUM_SAMPLES cfg
      \<and> (unat avg
           = true_sum (portTEST_NUM_SAMPLES cfg) (\<lambda>i. clk core (2 * i + 1) - clk core (2 * i))
               div portTEST_NUM_SAMPLES cfg
          \<longleftrightarrow> true_sum (portTEST_NUM_SAMPLES cfg) (\<lambda>i. clk core (2 * i + 1) - clk core (2 * i))
                < 2 ^ LENGTH('w))
      \<and> ((\<forall>j. Suc j < 2 * portTEST_NUM_SAMPLES cfg \<longrightarrow> clk core j \<le> clk core (Suc j))
          \<longrightarrow> true_sum (portTEST_NUM_SAMPLES cfg) (\<lambda>i. clk core (2 * i + 1) - clk core (2 * i))
                < 2 ^ LENGTH('w)
            \<and> unat (uxElapsedCumulative (shared s) ! core)
                = true_sum (portTEST_NUM_SAMPLES cfg) (\<lambda>i. clk core (2 * i + 1) - clk core (2 * i))
            \<and> unat avg
                = true_sum (portTEST_NUM_SAMPLES cfg) (\<lambda>i. clk core (2 * i + 1) - clk core (2 * i))
                    div portTEST_NUM_SAMPLES cfg))
    \<and> (\<exists>a b.
        crit_stdout (Test_CriticalSectionSpeed cfg cclk) =
          [Printf ''taskENTER_CRITICAL() average elapsed time: %u\<newline>'' [ArgUBase a],
           Printf ''taskEXIT_CRITICAL() average elapsed time: %u\<newline>'' [ArgUBase b]]
      \<and> unat (uxEntryElapsedCumulative (Test_CriticalSectionSpeed cfg cclk))
          = true_sum (portTEST_NUM_SAMPLES cfg) (\<lambda>i. cclk (4 * i + 1) - cclk (4 * i)) mod 2 ^ LENGTH('w)
      \<and> unat (uxExitElapsedCumulative (Test_CriticalSectionSpeed cfg cclk))
          = true_sum (portTEST_NUM_SAMPLES cfg) (\<lambda>i. cclk (4 * i + 3) - cclk (4 * i + 2)) mod 2 ^ LENGTH('w)
      \<and> (unat a = true_sum (portTEST_NUM_SAMPLES cfg) (\<lambda>i. cclk (4 * i + 1) - cclk (4 * i))
                     div portTEST_NUM_SAMPLES cfg
          \<longleftrightarrow> true_sum (portTEST_NUM_SAMPLES cfg) (\<lambda>i. cclk (4 * i + 1) - cclk (4 * i)) < 2 ^ LENGTH('w))
      \<and> (unat b = true_sum (portTEST_NUM_SAMPLES cfg) (\<lambda>i. cclk (4 * i + 3) - cclk (4 * i + 2))
                     div portTEST_NUM_SAMPLES cfg
          \<longleftrightarrow> true_sum (portTEST_NUM_SAMPLES cfg) (\<lambda>i. cclk (4 * i + 3) - cclk (4 * i + 2)) < 2 ^ LENGTH('w))
      \<and> ((\<forall>j. Suc j < 4 * portTEST_NUM_SAMPLES cfg \<longrightarrow> cclk j \<le> cclk (Suc j))
          \<longrightarrow> true_sum (portTEST_NUM_SAMPLES cfg) (\<lambda>i. cclk (4 * i + 1) - cclk (4 * i)) < 2 ^ LENGTH('w)
            \<and> true_sum (portTEST_NUM_SAMPLES cfg) (\<lambda>i. cclk (4 * i + 3) - cclk (4 * i + 2)) < 2 ^ LENGTH('w)
            \<and> unat a = true_sum (portTEST_NUM_SAMPLES cfg) (\<lambda>i. cclk (4 * i + 1) - cclk (4 * i))
                          div portTEST_NUM_SAMPLES cfg
            \<and> unat b = true_sum (portTEST_NUM_SAMPLES cfg) (\<lambda>i. cclk (4 * i + 3) - cclk (4 * i + 2))
                          div portTEST_NUM_SAMPLES cfg))"
proof -
  let ?n = "portTEST_NUM_SAMPLES cfg"
  let ?M = "2 ^ LENGTH('w) :: nat"
  have nM: "?n \<le> ?M" using n1 by simp
  have mean: "unat ((\<Sum>i<?n. f i) div of_nat ?n) = (true_sum ?n f mod ?M) div ?n"
    for f :: "nat \<Rightarrow> 'w word"
    by (simp add: printed_average_of_word[OF n0 n1] unat_sum_mod)
  have iff: "unat ((\<Sum>i<?n. f i) div of_nat ?n) = true_sum ?n f div ?n \<longleftrightarrow> true_sum ?n f < ?M"
    for f :: "nat \<Rightarrow> 'w word"
    by (simp only: mean wrapped_mean_iff[OF n0 nM])
  let ?s = "\<lambda>i. clk core (2 * i + 1) - clk core (2 * i)"
  note fields = returned_run_fields[OF c core run ret]
  have sub: "\<forall>i. uint (clk core (2 * i + 1) - clk core (2 * i))
                = (uint (clk core (2 * i + 1)) - uint (clk core (2 * i))) mod 2 ^ LENGTH('w)"
    by (simp add: uint_word_ariths)
  have fit: "true_sum ?n ?s < ?M \<and> unat (uxElapsedCumulative (shared s) ! core) = true_sum ?n ?s
               \<and> unat ((\<Sum>i<?n. ?s i) div of_nat ?n) = true_sum ?n ?s div ?n"
    if mono: "\<forall>j. Suc j < 2 * ?n \<longrightarrow> clk core j \<le> clk core (Suc j)"
  proof -
    have lt: "true_sum ?n ?s < ?M"
      by (rule contention_no_wrap) (use mono in blast)
    with iff[of ?s] sum_fits_unat[OF lt] show ?thesis
      by (simp only: fields(1) simp_thms)
  qed
  have first: "\<exists>avg.
        (\<forall>i. uint (clk core (2 * i + 1) - clk core (2 * i))
                = (uint (clk core (2 * i + 1)) - uint (clk core (2 * i))) mod 2 ^ LENGTH('w))
      \<and> unat (uxElapsedCumulative (shared s) ! core) = true_sum ?n ?s mod ?M
      \<and> stdout (shared s) ! Suc core = Printf ''Core %d: %d\<newline>'' [ArgInt (int core), ArgUBase avg]
      \<and> unat avg = (true_sum ?n ?s mod ?M) div ?n
      \<and> (unat avg = true_sum ?n ?s div ?n \<longleftrightarrow> true_sum ?n ?s < ?M)
      \<and> ((\<forall>j. Suc j < 2 * ?n \<longrightarrow> clk core j \<le> clk core (Suc j))
          \<longrightarrow> true_sum ?n ?s < ?M
            \<and> unat (uxElapsedCumulative (shared s) ! core) = true_sum ?n ?s
            \<and> unat avg = true_sum ?n ?s div ?n)"
  proof (rule exI[of _ "(\<Sum>i<?n. ?s i) div of_nat ?n"], intro conjI)
    show "\<forall>i. uint (clk core (2 * i + 1) - clk core (2 * i))
                = (uint (clk core (2 * i + 1)) - uint (clk core (2 * i))) mod 2 ^ LENGTH('w)"
      by (rule sub)
    show "unat (uxElapsedCumulative (shared s) ! core) = true_sum ?n ?s mod ?M"
      by (simp only: fields(1) unat_sum_mod)
    show "stdout (shared s) ! Suc core
            = Printf ''Core %d: %d\<newline>'' [ArgInt (int core), ArgUBase ((\<Sum>i<?n. ?s i) div of_nat ?n)]"
      by (rule fields(2))
    show "unat ((\<Sum>i<?n. ?s i) div of_nat ?n) = (true_sum ?n ?s mod ?M) div ?n"
      by (rule mean)
    show "unat ((\<Sum>i<?n. ?s i) div of_nat ?n) = true_sum ?n ?s div ?n \<longleftrightarrow> true_sum ?n ?s < ?M"
      by (rule iff)
    show "(\<forall>j. Suc j < 2 * ?n \<longrightarrow> clk core j \<le> clk core (Suc j))
          \<longrightarrow> true_sum ?n ?s < ?M
            \<and> unat (uxElapsedCumulative (shared s) ! core) = true_sum ?n ?s
            \<and> unat ((\<Sum>i<?n. ?s i) div of_nat ?n) = true_sum ?n ?s div ?n"
      using fit by blast
  qed
  let ?R = "Test_CriticalSectionSpeed cfg cclk"
  let ?e = "\<lambda>i. cclk (4 * i + 1) - cclk (4 * i)"
  let ?x = "\<lambda>i. cclk (4 * i + 3) - cclk (4 * i + 2)"
  have cfit: "true_sum ?n ?e < ?M \<and> true_sum ?n ?x < ?M
               \<and> unat ((\<Sum>i<?n. ?e i) div of_nat ?n) = true_sum ?n ?e div ?n
               \<and> unat ((\<Sum>i<?n. ?x i) div of_nat ?n) = true_sum ?n ?x div ?n"
    if mono: "\<forall>j. Suc j < 4 * ?n \<longrightarrow> cclk j \<le> cclk (Suc j)"
  proof -
    have lt: "true_sum ?n ?e < ?M" "true_sum ?n ?x < ?M"
      by (rule crit_no_wrap, use mono in blast)+
    with iff[of ?e] iff[of ?x] show ?thesis by blast
  qed
  have second: "\<exists>a b.
        crit_stdout ?R =
          [Printf ''taskENTER_CRITICAL() average elapsed time: %u\<newline>'' [ArgUBase a],
           Printf ''taskEXIT_CRITICAL() average elapsed time: %u\<newline>'' [ArgUBase b]]
      \<and> unat (uxEntryElapsedCumulative ?R) = true_sum ?n ?e mod ?M
      \<and> unat (uxExitElapsedCumulative ?R) = true_sum ?n ?x mod ?M
      \<and> (unat a = true_sum ?n ?e div ?n \<longleftrightarrow> true_sum ?n ?e < ?M)
      \<and> (unat b = true_sum ?n ?x div ?n \<longleftrightarrow> true_sum ?n ?x < ?M)
      \<and> ((\<forall>j. Suc j < 4 * ?n \<longrightarrow> cclk j \<le> cclk (Suc j))
          \<longrightarrow> true_sum ?n ?e < ?M \<and> true_sum ?n ?x < ?M
            \<and> unat a = true_sum ?n ?e div ?n
            \<and> unat b = true_sum ?n ?x div ?n)"
  proof (rule exI[of _ "(\<Sum>i<?n. ?e i) div of_nat ?n"],
         rule exI[of _ "(\<Sum>i<?n. ?x i) div of_nat ?n"], intro conjI)
    show "crit_stdout ?R =
          [Printf ''taskENTER_CRITICAL() average elapsed time: %u\<newline>''
             [ArgUBase ((\<Sum>i<?n. ?e i) div of_nat ?n)],
           Printf ''taskEXIT_CRITICAL() average elapsed time: %u\<newline>''
             [ArgUBase ((\<Sum>i<?n. ?x i) div of_nat ?n)]]"
      using crit_print_fields(3)[of cfg cclk] by (simp only: crit_fields_sum)
    show "unat (uxEntryElapsedCumulative ?R) = true_sum ?n ?e mod ?M"
      by (simp only: crit_fields_sum unat_sum_mod)
    show "unat (uxExitElapsedCumulative ?R) = true_sum ?n ?x mod ?M"
      by (simp only: crit_fields_sum unat_sum_mod)
    show "unat ((\<Sum>i<?n. ?e i) div of_nat ?n) = true_sum ?n ?e div ?n \<longleftrightarrow> true_sum ?n ?e < ?M"
      by (rule iff)
    show "unat ((\<Sum>i<?n. ?x i) div of_nat ?n) = true_sum ?n ?x div ?n \<longleftrightarrow> true_sum ?n ?x < ?M"
      by (rule iff)
    show "(\<forall>j. Suc j < 4 * ?n \<longrightarrow> cclk j \<le> cclk (Suc j))
          \<longrightarrow> true_sum ?n ?e < ?M \<and> true_sum ?n ?x < ?M
            \<and> unat ((\<Sum>i<?n. ?e i) div of_nat ?n) = true_sum ?n ?e div ?n
            \<and> unat ((\<Sum>i<?n. ?x i) div of_nat ?n) = true_sum ?n ?x div ?n"
      using cfit by blast
  qed
  from first second show ?thesis by (rule conjI)
qed


theorem accumulator_arithmetic_is_modular_witness:
  "(0::nat) < configNUMBER_OF_CORES idf_config
   \<and> 0 < portTEST_NUM_SAMPLES idf_config \<and> portTEST_NUM_SAMPLES idf_config < 2 ^ LENGTH(32)
   \<and> (\<exists>sched s. TEST_CASE_QueueContention idf_config (\<lambda>c k. of_nat k :: 32 word) 0 sched = Inr (Some s)
         \<and> main_returned s
         \<and> unat (uxElapsedCumulative (shared s) ! 0) = 128
         \<and> stdout (shared s) ! 1 = Printf ''Core %d: %d\<newline>'' [ArgInt 0, ArgUBase 1]
         \<and> true_sum 128 (\<lambda>i. of_nat (2 * i + 1) - of_nat (2 * i) :: 32 word) = 128)"
proof -
  let ?clk = "\<lambda>c k. of_nat k :: 32 word"
  have c: "(0::nat) < configNUMBER_OF_CORES idf_config" and items: "0 < portTEST_NUM_ITEMS idf_config"
    and n0: "0 < portTEST_NUM_SAMPLES idf_config"
    and n1: "portTEST_NUM_SAMPLES idf_config < 2 ^ LENGTH(32)"
    by (simp_all add: idf_config_simps)
  obtain sched s where run: "TEST_CASE_QueueContention idf_config ?clk 0 sched = Inr (Some s)"
    and ret: "main_returned s"
    using test_case_completes[OF c items, of ?clk] by blast
  have mono: "\<forall>j. Suc j < 2 * portTEST_NUM_SAMPLES idf_config \<longrightarrow> ?clk 0 j \<le> ?clk 0 (Suc j)"
  proof (intro allI impI)
    fix j assume "Suc j < 2 * portTEST_NUM_SAMPLES idf_config"
    then have "Suc j < 2 ^ LENGTH(32)" by (simp add: idf_config_simps)
    then show "(of_nat j :: 32 word) \<le> of_nat (Suc j)" by (rule counting_clock_monotone)
  qed
  have ts: "true_sum 128 (\<lambda>i. of_nat (2 * i + 1) - of_nat (2 * i) :: 32 word) = 128"
    by (rule counting_clock_sum)
  from accumulator_arithmetic_is_modular[OF c c n0 n1 run ret, of "\<lambda>k. 0"] mono
  obtain avg :: "32 word" where
    out: "stdout (shared s) ! Suc 0 = Printf ''Core %d: %d\<newline>'' [ArgInt (int 0), ArgUBase avg]"
    and cum: "unat (uxElapsedCumulative (shared s) ! 0)
                = true_sum (portTEST_NUM_SAMPLES idf_config) (\<lambda>i. of_nat (2 * i + 1) - of_nat (2 * i) :: 32 word)"
    and avg: "unat avg = true_sum (portTEST_NUM_SAMPLES idf_config)
                           (\<lambda>i. of_nat (2 * i + 1) - of_nat (2 * i) :: 32 word)
                         div portTEST_NUM_SAMPLES idf_config"
    by blast
  have "unat avg = 128 div 128" using avg by (simp only: idf_config_simps ts)
  then have "unat avg = 1" by simp
  then have "avg = 1" by (simp add: word_unat_eq_iff)
  with out have o: "stdout (shared s) ! 1 = Printf ''Core %d: %d\<newline>'' [ArgInt 0, ArgUBase 1]"
    by simp
  have "unat (uxElapsedCumulative (shared s) ! 0) = 128"
    using cum by (simp only: idf_config_simps ts)
  with c n0 n1 run ret o ts show ?thesis by blast
qed

text \<open>
  C9, as stated, fails in its last clause: the assumption that the counter does not
  wrap covers the accumulator too.  On 32 bits, with the 128 samples of the sources, no
  run of the queue-contention test and no run of the critical-section test whose
  readings never decrease ends with an accumulator that differs from the sum of its
  samples taken as natural numbers; and there are such runs.
\<close>

theorem accumulator_wrap_counterexample:
  "\<not> (\<exists>(clk :: nat \<Rightarrow> nat \<Rightarrow> 32 word) sched s.
          (\<forall>j. Suc j < 256 \<longrightarrow> clk 0 j \<le> clk 0 (Suc j))
        \<and> TEST_CASE_QueueContention idf_config clk 0 sched = Inr (Some s) \<and> main_returned s
        \<and> unat (uxElapsedCumulative (shared s) ! 0)
            \<noteq> true_sum 128 (\<lambda>i. clk 0 (2 * i + 1) - clk 0 (2 * i)))
   \<and> \<not> (\<exists>cclk :: nat \<Rightarrow> 32 word.
          (\<forall>j. Suc j < 512 \<longrightarrow> cclk j \<le> cclk (Suc j))
        \<and> (unat (uxEntryElapsedCumulative (Test_CriticalSectionSpeed idf_config cclk))
              \<noteq> true_sum 128 (\<lambda>i. cclk (4 * i + 1) - cclk (4 * i))
           \<or> unat (uxExitElapsedCumulative (Test_CriticalSectionSpeed idf_config cclk))
              \<noteq> true_sum 128 (\<lambda>i. cclk (4 * i + 3) - cclk (4 * i + 2))))
   \<and> (\<exists>sched s. (\<forall>j. Suc j < 256 \<longrightarrow> (of_nat j :: 32 word) \<le> of_nat (Suc j))
        \<and> TEST_CASE_QueueContention idf_config (\<lambda>c k. of_nat k :: 32 word) 0 sched = Inr (Some s)
        \<and> main_returned s)"
proof (intro conjI notI)
  have c: "(0::nat) < configNUMBER_OF_CORES idf_config" and items: "0 < portTEST_NUM_ITEMS idf_config"
    by (simp_all add: idf_config_simps)
  {
    assume "\<exists>(clk :: nat \<Rightarrow> nat \<Rightarrow> 32 word) sched s.
          (\<forall>j. Suc j < 256 \<longrightarrow> clk 0 j \<le> clk 0 (Suc j))
        \<and> TEST_CASE_QueueContention idf_config clk 0 sched = Inr (Some s) \<and> main_returned s
        \<and> unat (uxElapsedCumulative (shared s) ! 0)
            \<noteq> true_sum 128 (\<lambda>i. clk 0 (2 * i + 1) - clk 0 (2 * i))"
    then obtain clk :: "nat \<Rightarrow> nat \<Rightarrow> 32 word" and sched s where
      mono: "\<forall>j. Suc j < 256 \<longrightarrow> clk 0 j \<le> clk 0 (Suc j)"
      and run: "TEST_CASE_QueueContention idf_config clk 0 sched = Inr (Some s)"
      and ret: "main_returned s"
      and ne: "unat (uxElapsedCumulative (shared s) ! 0)
                 \<noteq> true_sum 128 (\<lambda>i. clk 0 (2 * i + 1) - clk 0 (2 * i))"
      by blast
    have lt: "true_sum 128 (\<lambda>i. clk 0 (2 * i + 1) - clk 0 (2 * i)) < 2 ^ LENGTH(32)"
      by (rule contention_no_wrap) (use mono in simp)
    have "uxElapsedCumulative (shared s) ! 0 = (\<Sum>i<128. clk 0 (2 * i + 1) - clk 0 (2 * i))"
      using returned_run_fields(1)[OF c c run ret] by (simp add: idf_config_simps)
    with sum_fits_unat[OF lt] ne show False by simp
  }
  {
    assume "\<exists>cclk :: nat \<Rightarrow> 32 word.
          (\<forall>j. Suc j < 512 \<longrightarrow> cclk j \<le> cclk (Suc j))
        \<and> (unat (uxEntryElapsedCumulative (Test_CriticalSectionSpeed idf_config cclk))
              \<noteq> true_sum 128 (\<lambda>i. cclk (4 * i + 1) - cclk (4 * i))
           \<or> unat (uxExitElapsedCumulative (Test_CriticalSectionSpeed idf_config cclk))
              \<noteq> true_sum 128 (\<lambda>i. cclk (4 * i + 3) - cclk (4 * i + 2)))"
    then obtain cclk :: "nat \<Rightarrow> 32 word" where
      mono: "\<forall>j. Suc j < 512 \<longrightarrow> cclk j \<le> cclk (Suc j)"
      and ne: "unat (uxEntryElapsedCumulative (Test_CriticalSectionSpeed idf_config cclk))
              \<noteq> true_sum 128 (\<lambda>i. cclk (4 * i + 1) - cclk (4 * i))
           \<or> unat (uxExitElapsedCumulative (Test_CriticalSectionSpeed idf_config cclk))
              \<noteq> true_sum 128 (\<lambda>i. cclk (4 * i + 3) - cclk (4 * i + 2))"
      by blast
    have lt: "true_sum 128 (\<lambda>i. cclk (4 * i + 1) - cclk (4 * i)) < 2 ^ LENGTH(32)"
      "true_sum 128 (\<lambda>i. cclk (4 * i + 3) - cclk (4 * i + 2)) < 2 ^ LENGTH(32)"
      by (rule crit_no_wrap, use mono in simp)+
    have "uxEntryElapsedCumulative (Test_CriticalSectionSpeed idf_config cclk)
            = (\<Sum>i<128. cclk (4 * i + 1) - cclk (4 * i))"
      "uxExitElapsedCumulative (Test_CriticalSectionSpeed idf_config cclk)
            = (\<Sum>i<128. cclk (4 * i + 3) - cclk (4 * i + 2))"
      using crit_fields_sum[of idf_config cclk] by (simp_all add: idf_config_simps)
    with sum_fits_unat[OF lt(1)] sum_fits_unat[OF lt(2)] ne show False by simp
  }
  obtain sched s where run: "TEST_CASE_QueueContention idf_config (\<lambda>c k. of_nat k :: 32 word) 0 sched
                               = Inr (Some s)"
    and ret: "main_returned s"
    using test_case_completes[OF c items, of "\<lambda>c k. of_nat k :: 32 word"] by blast
  have "\<forall>j. Suc j < 256 \<longrightarrow> (of_nat j :: 32 word) \<le> of_nat (Suc j)"
  proof (intro allI impI)
    fix j :: nat assume "Suc j < 256"
    then have "Suc j < 2 ^ LENGTH(32)" by simp
    then show "(of_nat j :: 32 word) \<le> of_nat (Suc j)" by (rule counting_clock_monotone)
  qed
  with run ret
  show "\<exists>sched s. (\<forall>j. Suc j < 256 \<longrightarrow> (of_nat j :: 32 word) \<le> of_nat (Suc j))
        \<and> TEST_CASE_QueueContention idf_config (\<lambda>c k. of_nat k :: 32 word) 0 sched = Inr (Some s)
        \<and> main_returned s"
    by blast
qed

text \<open>
  C10.  The queue-speed test at 128 samples: \<open>setup_idf\<close> creates the queue with 128
  slots; the test makes 128 sends, all returning \<open>pdTRUE\<close>, then 128 receives, all
  returning \<open>pdTRUE\<close>; the \<open>i\<close>-th receive yields the value \<open>i\<close> that the \<open>i\<close>-th
  send put in, so the values 0 to 127 come out in the order they went in; the queue is
  empty when the test ends.
\<close>

theorem queue_speed_fifo:
  fixes clk :: "nat \<Rightarrow> 'w::len word"
  shows "\<exists>st. TEST_CASE_QueueSpeed idf_config clk = Inr st
     \<and> setup_idf_queue_speed idf_config = Inr \<lparr>uxLength = 128, messages = []\<rparr>
     \<and> xQueueHandle st = \<lparr>uxLength = 128, messages = []\<rparr>
     \<and> qs_trace st =
         concat (map (\<lambda>i. [QsGetTime (clk (2 * i)), QsSend (int i) pdTRUE, QsGetTime (clk (2 * i + 1))])
                   [0..<128])
         @ concat (map (\<lambda>i. [QsGetTime (clk (256 + 2 * i)), QsReceive (Some (int i)) pdTRUE,
                               QsGetTime (clk (256 + 2 * i + 1))])
                   [0..<128])"
proof -
  have su: "setup_idf_queue_speed idf_config = Inr \<lparr>uxLength = 128, messages = []\<rparr>"
    by (simp add: setup_idf_queue_speed_def xQueueCreate_def TEST_ASSERT_NOT_NULL_MESSAGE_def
        idf_config_simps)
  show ?thesis
    using Test_QueueSpeedNonBlocking_ok[of idf_config clk]
    by (auto simp: TEST_CASE_QueueSpeed_def su idf_config_simps)
qed


end
